theory Spec2Isabelle
  imports Main "HOL-Library.Sublist" "HOL-Library.Word"
begin

section \<open>JavaScript values as the worker sees them\<close>

text \<open>
  The worker (\<^verbatim>\<open>_worker.js\<close>) receives request bodies from \<^verbatim>\<open>request.json()\<close> and reads
  stored values through \<^verbatim>\<open>JSON.parse\<close>, so every value it handles is a JSON value. A
  property read that finds nothing gives \<^verbatim>\<open>undefined\<close>, modelled as \<open>None\<close>.

  A number is a signed 54-bit word: the integers from \<open>- 2 ^ 53\<close> to \<open>2 ^ 53 - 1\<close>, each of
  which a JavaScript number holds exactly and renders in plain decimal. The worker
  observes a number only through its truthiness (zero or not) and, when one is interpolated
  into a key, through this rendering. Fractions and larger magnitudes cannot be written in
  the model. A \<^typ>\<open>string\<close> stands for a JavaScript string whose code units are below 256.
  An object is its list of own properties; \<^verbatim>\<open>JSON.parse\<close> yields no duplicate keys.
\<close>

datatype jsval =
    JNull
  | JBool bool
  | JNum "54 word"
  | JStr string
  | JArr "jsval list"
  | JObj "(string \<times> jsval) list"

text \<open>The only exception the handlers can raise by themselves.\<close>

datatype error = TypeError

text \<open>Truthiness, as used by \<^verbatim>\<open>!x\<close>, \<^verbatim>\<open>x || d\<close>, \<^verbatim>\<open>if (x)\<close> and \<^verbatim>\<open>filter(Boolean)\<close>.\<close>

fun truthy :: "jsval \<Rightarrow> bool" where
  "truthy JNull = False"
| "truthy (JBool b) = b"
| "truthy (JNum n) = (n \<noteq> 0)"
| "truthy (JStr s) = (s \<noteq> [])"
| "truthy (JArr xs) = True"
| "truthy (JObj fs) = True"

fun truthy_opt :: "jsval option \<Rightarrow> bool" where
  "truthy_opt None = False"
| "truthy_opt (Some v) = truthy v"

text \<open>\<^verbatim>\<open>x || d\<close> for a possibly undefined \<open>x\<close>.\<close>

fun or_else :: "jsval option \<Rightarrow> jsval \<Rightarrow> jsval" where
  "or_else None d = d"
| "or_else (Some v) d = (if truthy v then v else d)"

text \<open>
  \<^verbatim>\<open>v.k\<close> for the property names the handlers read (\<^verbatim>\<open>title\<close>, \<^verbatim>\<open>prompt\<close>,
  \<^verbatim>\<open>assignmentId\<close>, ...): an object gives its own property, and no other kind of
  value (nor \<^verbatim>\<open>Object.prototype\<close>) has a property of such a name.
\<close>

fun getProp :: "jsval \<Rightarrow> string \<Rightarrow> jsval option" where
  "getProp (JObj fs) k = map_of fs k"
| "getProp v k = None"

text \<open>
  \<^verbatim>\<open>String.prototype.trim\<close> strips white space and line terminators from both ends;
  below code unit 256 these are TAB, LF, VT, FF, CR, SP and NBSP.
\<close>

definition is_ws :: "char \<Rightarrow> bool" where
  "is_ws c = (of_char c \<in> {9, 10, 11, 12, 13, 32, 160 :: nat})"

definition trim :: "string \<Rightarrow> string" where
  "trim s = rev (dropWhile is_ws (rev (dropWhile is_ws s)))"

text \<open>
  The method call \<^verbatim>\<open>x.trim()\<close>: only a string has a callable \<^verbatim>\<open>trim\<close>; on any other
  value the call raises a TypeError.
\<close>

fun call_trim :: "jsval \<Rightarrow> error + string" where
  "call_trim (JStr s) = Inr (trim s)"
| "call_trim v = Inl TypeError"

text \<open>\<^verbatim>\<open>s.includes(t)\<close> on strings: \<open>t\<close> occurs in \<open>s\<close> as a contiguous run.\<close>

fun includes_str :: "string \<Rightarrow> string \<Rightarrow> bool" where
  "includes_str [] t = (t = [])"
| "includes_str (c # cs) t = (prefix t (c # cs) \<or> includes_str cs t)"

text \<open>
  The rendering of a number, as \<^verbatim>\<open>Number.prototype.toString\<close> gives it for an integer of
  magnitude at most \<open>2 ^ 53\<close>: an optional minus sign and the decimal digits.
\<close>

fun digits :: "nat \<Rightarrow> string" where
  "digits n = (if n < 10 then [char_of (48 + n)]
               else digits (n div 10) @ [char_of (48 + n mod 10)])"

definition num_str :: "54 word \<Rightarrow> string" where
  "num_str n =
     (if sint n < 0 then CHR ''-'' # digits (nat (- sint n)) else digits (nat (sint n)))"

text \<open>
  The string conversion of a template literal \<^verbatim>\<open>`${v}`\<close>. An array joins its elements
  with commas, rendering \<^verbatim>\<open>null\<close> elements as the empty string. An object renders as
  \<^verbatim>\<open>[object Object]\<close>, unless it has an own property \<^verbatim>\<open>toString\<close> (never callable in
  a JSON value), in which case the conversion raises a TypeError.
\<close>

fun toStr :: "jsval \<Rightarrow> error + string"
  and joinStr :: "jsval list \<Rightarrow> error + string"
where
  "toStr JNull = Inr ''null''"
| "toStr (JBool b) = Inr (if b then ''true'' else ''false'')"
| "toStr (JNum n) = Inr (num_str n)"
| "toStr (JStr s) = Inr s"
| "toStr (JArr xs) = joinStr xs"
| "toStr (JObj fs) =
     (if ''toString'' \<in> set (map fst fs) then Inl TypeError else Inr ''[object Object]'')"
| "joinStr [] = Inr []"
| "joinStr [x] = (if x = JNull then Inr [] else toStr x)"
| "joinStr (x # y # ys) =
     (case (if x = JNull then Inr [] else toStr x) of
        Inl e \<Rightarrow> Inl e
      | Inr s \<Rightarrow> (case joinStr (y # ys) of
                    Inl e \<Rightarrow> Inl e
                  | Inr t \<Rightarrow> Inr (s @ '','' @ t)))"

section \<open>Responses\<close>

text \<open>
  \<^verbatim>\<open>new Response(JSON.stringify(data), {status, headers})\<close>: the body is kept as the value
  that was serialised.
\<close>

datatype response = Response jsval nat "(string \<times> string) list"

definition CORS :: "(string \<times> string) list" where
  "CORS = [(''Access-Control-Allow-Origin'', ''*''),
           (''Access-Control-Allow-Methods'', ''GET, POST, OPTIONS''),
           (''Access-Control-Allow-Headers'', ''Content-Type'')]"

definition json :: "jsval \<Rightarrow> nat \<Rightarrow> response" where
  "json data status =
     Response data status ((''Content-Type'', ''application/json; charset=utf-8'') # CORS)"

definition err :: "string \<Rightarrow> nat \<Rightarrow> response" where
  "err msg status = json (JObj [(''ok'', JBool False), (''error'', JStr msg)]) status"

fun status_of :: "response \<Rightarrow> nat" where
  "status_of (Response b s h) = s"

section \<open>The key-value store and its helpers\<close>

text \<open>
  The KV namespace maps keys to texts. A text is observed only through
  \<^verbatim>\<open>if (!v) return null\<close> and \<^verbatim>\<open>JSON.parse(v)\<close>, so it is the empty string, a
  non-empty text on which \<^verbatim>\<open>JSON.parse\<close> throws, or the serialisation of a value.
  \<^verbatim>\<open>JSON.stringify\<close> followed by \<^verbatim>\<open>JSON.parse\<close> gives the value back.
\<close>

datatype stored = Empty | Malformed | Encoded jsval

type_synonym kv = "string \<rightharpoonup> stored"

definition kvGet :: "kv \<Rightarrow> string \<Rightarrow> jsval" where
  "kvGet kv key =
     (case kv key of
        None \<Rightarrow> JNull
      | Some Empty \<Rightarrow> JNull
      | Some Malformed \<Rightarrow> JNull
      | Some (Encoded v) \<Rightarrow> v)"

definition kvPut :: "kv \<Rightarrow> string \<Rightarrow> jsval \<Rightarrow> kv" where
  "kvPut kv key v = kv(key \<mapsto> Encoded v)"

definition getIndex :: "kv \<Rightarrow> string \<Rightarrow> jsval" where
  "getIndex kv name =
     (let v = kvGet kv (''index:'' @ name) in if truthy v then v else JArr [])"

text \<open>
  \<^verbatim>\<open>pushIndex\<close>: on an array, \<^verbatim>\<open>includes\<close> compares with strict equality and \<^verbatim>\<open>push\<close>
  appends. A stored string has \<^verbatim>\<open>includes\<close> (substring test) but no \<^verbatim>\<open>push\<close>; any
  other truthy value has neither method. The exception leaves the store as it is.
\<close>

definition pushIndex :: "kv \<Rightarrow> string \<Rightarrow> string \<Rightarrow> error + kv" where
  "pushIndex kv name ident =
     (case getIndex kv name of
        JArr xs \<Rightarrow>
          Inr (kvPut kv (''index:'' @ name)
                 (JArr (if JStr ident \<in> set xs then xs else xs @ [JStr ident])))
      | JStr s \<Rightarrow>
          if includes_str s ident then Inr (kvPut kv (''index:'' @ name) (JStr s))
          else Inl TypeError
      | _ \<Rightarrow> Inl TypeError)"

section \<open>Route handlers\<close>

text \<open>
  \<^verbatim>\<open>ids.map((id) => kvGet(kv, `${prefix}${id}`))\<close>, stopping at the first element whose
  string conversion throws.
\<close>

fun fetchAll :: "kv \<Rightarrow> string \<Rightarrow> jsval list \<Rightarrow> error + jsval list" where
  "fetchAll kv pre [] = Inr []"
| "fetchAll kv pre (x # xs) =
     (case toStr x of
        Inl e \<Rightarrow> Inl e
      | Inr s \<Rightarrow> (case fetchAll kv pre xs of
                    Inl e \<Rightarrow> Inl e
                  | Inr vs \<Rightarrow> Inr (kvGet kv (pre @ s) # vs)))"

definition handleAssignmentsGet :: "kv \<Rightarrow> error + response" where
  "handleAssignmentsGet kv =
     (case getIndex kv ''assignments'' of
        JArr ids \<Rightarrow>
          (case fetchAll kv ''assignment:'' ids of
             Inl e \<Rightarrow> Inl e
           | Inr items \<Rightarrow>
               Inr (json (JObj [(''ok'', JBool True),
                                (''items'', JArr (rev (filter truthy items)))]) 200))
      | _ \<Rightarrow> Inl TypeError)"

text \<open>
  The identifier from \<^verbatim>\<open>uid()\<close> and the time from \<^verbatim>\<open>new Date().toISOString()\<close> come
  from the host; the handlers take them as the arguments \<open>ident\<close> and \<open>now\<close>. A handler
  returns what the request ends with (a response or an exception) and the store it
  leaves behind.

  After the test \<^verbatim>\<open>!title\<close> has failed, \<open>or_else title JNull\<close> is the value of \<^verbatim>\<open>title\<close>
  itself. The record literal evaluates its fields in order, so a \<^verbatim>\<open>trim\<close> that throws does
  so before anything is written.
\<close>

definition handleAssignmentsPost ::
  "string \<Rightarrow> string \<Rightarrow> kv \<Rightarrow> jsval \<Rightarrow> (error + response) \<times> kv" where
  "handleAssignmentsPost ident now kv body =
     (let b = (if truthy body then body else JObj []);
          title = getProp b ''title'';
          prompt = getProp b ''prompt''
      in
      if \<not> truthy_opt title then (Inr (err ''title is required'' 400), kv)
      else (case call_trim (or_else title JNull) of
        Inl e \<Rightarrow> (Inl e, kv)
      | Inr t \<Rightarrow>
      (if t = [] then (Inr (err ''title is required'' 400), kv)
      else if \<not> truthy_opt prompt then (Inr (err ''prompt is required'' 400), kv)
      else (case call_trim (or_else prompt JNull) of
        Inl e \<Rightarrow> (Inl e, kv)
      | Inr p \<Rightarrow>
      (if p = [] then (Inr (err ''prompt is required'' 400), kv)
      else (case call_trim (or_else (getProp body ''gradeBand'') (JStr [])) of
        Inl e \<Rightarrow> (Inl e, kv)
      | Inr g \<Rightarrow>
      (case call_trim (or_else (getProp body ''classPin'') (JStr [])) of
        Inl e \<Rightarrow> (Inl e, kv)
      | Inr c \<Rightarrow>
      (let record = JObj [(''id'', JStr ident),
                          (''title'', JStr t),
                          (''prompt'', JStr p),
                          (''gradeBand'', JStr g),
                          (''classPin'', JStr c),
                          (''createdAt'', or_else (getProp body ''createdAt'') (JStr now))];
           kv1 = kvPut kv (''assignment:'' @ ident) record
       in (case pushIndex kv1 ''assignments'' ident of
             Inl e \<Rightarrow> (Inl e, kv1)
           | Inr kv2 \<Rightarrow>
               (Inr (json (JObj [(''ok'', JBool True), (''id'', JStr ident),
                                 (''item'', record)]) 201), kv2))))))))))"

text \<open>
  \<^verbatim>\<open>url.searchParams.get("assignmentId")\<close> is a string or \<^verbatim>\<open>null\<close>; the handler takes
  it as \<open>q\<close>.
\<close>

definition handleSubmissionsGet :: "kv \<Rightarrow> string option \<Rightarrow> error + response" where
  "handleSubmissionsGet kv q =
     (let filterId = (case q of None \<Rightarrow> [] | Some s \<Rightarrow> s) in
      case getIndex kv ''submissions'' of
        JArr ids \<Rightarrow>
          (case fetchAll kv ''submission:'' ids of
             Inl e \<Rightarrow> Inl e
           | Inr fetched \<Rightarrow>
               let items = filter truthy fetched;
                   items' = (if filterId \<noteq> []
                             then filter (\<lambda>s. getProp s ''assignmentId'' = Some (JStr filterId)) items
                             else items)
               in Inr (json (JObj [(''ok'', JBool True), (''items'', JArr (rev items'))]) 200))
      | _ \<Rightarrow> Inl TypeError)"

definition handleSubmissionsPost ::
  "string \<Rightarrow> string \<Rightarrow> kv \<Rightarrow> jsval \<Rightarrow> (error + response) \<times> kv" where
  "handleSubmissionsPost ident now kv body =
     (let b = (if truthy body then body else JObj []);
          assignmentId = getProp b ''assignmentId'';
          studentName = getProp b ''studentName'';
          response = getProp b ''response''
      in
      if \<not> truthy_opt assignmentId then (Inr (err ''assignmentId is required'' 400), kv)
      else if \<not> truthy_opt studentName then (Inr (err ''studentName is required'' 400), kv)
      else (case call_trim (or_else studentName JNull) of
        Inl e \<Rightarrow> (Inl e, kv)
      | Inr sn \<Rightarrow>
      (if sn = [] then (Inr (err ''studentName is required'' 400), kv)
      else if \<not> truthy_opt response then (Inr (err ''response is required'' 400), kv)
      else (case call_trim (or_else response JNull) of
        Inl e \<Rightarrow> (Inl e, kv)
      | Inr r \<Rightarrow>
      (if r = [] then (Inr (err ''response is required'' 400), kv)
      else (case toStr (or_else assignmentId JNull) of
        Inl e \<Rightarrow> (Inl e, kv)
      | Inr akey \<Rightarrow>
      (if \<not> truthy (kvGet kv (''assignment:'' @ akey))
      then (Inr (err ''assignment not found'' 404), kv)
      else (case call_trim (or_else (getProp body ''classPin'') (JStr [])) of
        Inl e \<Rightarrow> (Inl e, kv)
      | Inr c \<Rightarrow>
      (case call_trim (or_else (getProp body ''steps'') (JStr [])) of
        Inl e \<Rightarrow> (Inl e, kv)
      | Inr st \<Rightarrow>
      (case call_trim (or_else (getProp body ''reflection'') (JStr [])) of
        Inl e \<Rightarrow> (Inl e, kv)
      | Inr rf \<Rightarrow>
      (let record = JObj [(''id'', JStr ident),
                          (''assignmentId'', or_else assignmentId JNull),
                          (''studentName'', JStr sn),
                          (''classPin'', JStr c),
                          (''response'', JStr r),
                          (''steps'', JStr st),
                          (''reflection'', JStr rf),
                          (''submittedAt'', or_else (getProp body ''submittedAt'') (JStr now))];
           kv1 = kvPut kv (''submission:'' @ ident) record
       in (case pushIndex kv1 ''submissions'' ident of
             Inl e \<Rightarrow> (Inl e, kv1)
           | Inr kv2 \<Rightarrow>
               (Inr (json (JObj [(''ok'', JBool True), (''id'', JStr ident),
                                 (''item'', record)]) 201), kv2)))))))))))))"

section \<open>Vocabulary of the specification\<close>

text \<open>
  The data model of the specification, in its own words: required fields are non-empty
  trimmed strings, optional fields are trimmed strings that default to the empty string,
  and a time stamp is the caller's value or else the server's time.
\<close>

definition nonblank_string :: "jsval option \<Rightarrow> bool" where
  "nonblank_string x = (case x of Some (JStr s) \<Rightarrow> trim s \<noteq> [] | _ \<Rightarrow> False)"


text \<open>Absent, falsy, or a string.\<close>

definition optional_string :: "jsval option \<Rightarrow> bool" where
  "optional_string x =
     (case x of None \<Rightarrow> True | Some (JStr s) \<Rightarrow> True | Some v \<Rightarrow> \<not> truthy v)"

definition trimmed :: "jsval option \<Rightarrow> string" where
  "trimmed x = (case x of Some (JStr s) \<Rightarrow> trim s | _ \<Rightarrow> [])"

definition valid_assignment :: "jsval \<Rightarrow> bool" where
  "valid_assignment body =
     (nonblank_string (getProp body ''title'') \<and>
      nonblank_string (getProp body ''prompt'') \<and>
      optional_string (getProp body ''gradeBand'') \<and>
      optional_string (getProp body ''classPin''))"

definition assignment_record :: "string \<Rightarrow> string \<Rightarrow> jsval \<Rightarrow> jsval" where
  "assignment_record i now body =
     JObj [(''id'', JStr i),
           (''title'', JStr (trimmed (getProp body ''title''))),
           (''prompt'', JStr (trimmed (getProp body ''prompt''))),
           (''gradeBand'', JStr (trimmed (getProp body ''gradeBand''))),
           (''classPin'', JStr (trimmed (getProp body ''classPin''))),
           (''createdAt'', or_else (getProp body ''createdAt'') (JStr now))]"

text \<open>
  The field checks of Create-Submission: a truthy \<^verbatim>\<open>assignmentId\<close>, and \<^verbatim>\<open>studentName\<close>
  and \<^verbatim>\<open>response\<close> non-empty after trimming.
\<close>

definition passes_field_checks :: "jsval \<Rightarrow> bool" where
  "passes_field_checks body =
     (truthy_opt (getProp body ''assignmentId'') \<and>
      nonblank_string (getProp body ''studentName'') \<and>
      nonblank_string (getProp body ''response''))"

text \<open>
  The key of the assignment that a submission body names exists when the string
  conversion of its \<^verbatim>\<open>assignmentId\<close> does not throw. The assignment resolves when, moreover,
  the record stored under that key is present, parses and is truthy.
\<close>

definition has_key :: "jsval \<Rightarrow> bool" where
  "has_key body =
     (case toStr (or_else (getProp body ''assignmentId'') JNull) of
        Inl e \<Rightarrow> False
      | Inr k \<Rightarrow> True)"

definition resolves :: "kv \<Rightarrow> jsval \<Rightarrow> bool" where
  "resolves kv body =
     (case toStr (or_else (getProp body ''assignmentId'') JNull) of
        Inl e \<Rightarrow> False
      | Inr k \<Rightarrow> truthy (kvGet kv (''assignment:'' @ k)))"

definition valid_submission :: "kv \<Rightarrow> jsval \<Rightarrow> bool" where
  "valid_submission kv body =
     (passes_field_checks body \<and> resolves kv body \<and>
      optional_string (getProp body ''classPin'') \<and>
      optional_string (getProp body ''steps'') \<and>
      optional_string (getProp body ''reflection''))"

definition submission_record :: "string \<Rightarrow> string \<Rightarrow> jsval \<Rightarrow> jsval" where
  "submission_record i now body =
     JObj [(''id'', JStr i),
           (''assignmentId'', or_else (getProp body ''assignmentId'') JNull),
           (''studentName'', JStr (trimmed (getProp body ''studentName''))),
           (''classPin'', JStr (trimmed (getProp body ''classPin''))),
           (''response'', JStr (trimmed (getProp body ''response''))),
           (''steps'', JStr (trimmed (getProp body ''steps''))),
           (''reflection'', JStr (trimmed (getProp body ''reflection''))),
           (''submittedAt'', or_else (getProp body ''submittedAt'') (JStr now))]"

text \<open>The success response \<^verbatim>\<open>json({ ok: true, id, item: record }, 201)\<close>.\<close>

definition created :: "string \<Rightarrow> jsval \<Rightarrow> response" where
  "created i item =
     json (JObj [(''ok'', JBool True), (''id'', JStr i), (''item'', item)]) 201"

text \<open>The listing response \<^verbatim>\<open>json({ ok: true, items })\<close>.\<close>

definition listing :: "jsval list \<Rightarrow> response" where
  "listing items = json (JObj [(''ok'', JBool True), (''items'', JArr items)]) 200"

text \<open>
  The records an index of ids names, in index order, without those that fail to resolve.
\<close>

definition resolved :: "kv \<Rightarrow> string \<Rightarrow> string list \<Rightarrow> jsval list" where
  "resolved kv pre ids = filter truthy (map (\<lambda>j. kvGet kv (pre @ j)) ids)"

text \<open>
  An index is a sequence of ids when it reads as an array of strings; this includes the
  absent, the unparseable and the falsy stored value, which read as the empty array.
\<close>

definition index_ids :: "kv \<Rightarrow> string \<Rightarrow> string list \<Rightarrow> bool" where
  "index_ids kv name ids = (getIndex kv name = JArr (map JStr ids))"

text \<open>
  The stores the service can be in: the empty namespace, and what any create request
  leaves behind (whatever it ends with). The list requests write nothing.
\<close>

inductive reachable :: "kv \<Rightarrow> bool" where
  fresh: "reachable Map.empty"
| assignment: "reachable kv \<Longrightarrow> reachable (snd (handleAssignmentsPost i now kv body))"
| submission: "reachable kv \<Longrightarrow> reachable (snd (handleSubmissionsPost i now kv body))"

text \<open>
  The invariant of an index in a reachable store: an array of distinct ids, each naming
  a stored record that carries this id.
\<close>

definition carries_id :: "kv \<Rightarrow> string \<Rightarrow> jsval \<Rightarrow> bool" where
  "carries_id kv pre x =
     (case x of JStr j \<Rightarrow> getProp (kvGet kv (pre @ j)) ''id'' = Some (JStr j) | _ \<Rightarrow> False)"

definition index_ok :: "kv \<Rightarrow> string \<Rightarrow> string \<Rightarrow> bool" where
  "index_ok kv name pre =
     (case getIndex kv name of
        JArr xs \<Rightarrow> distinct xs \<and> list_all (carries_id kv pre) xs
      | _ \<Rightarrow> False)"

text \<open>
  Example data, after the end-to-end scenario of the specification: a time stamp, the
  request bodies \<^verbatim>\<open>{title:"Fractions", prompt:"Explain 1/2+1/3"}\<close> and
  \<^verbatim>\<open>{assignmentId, studentName:"Ana", response:"5/6"}\<close>, and a store that holds one
  assignment record (not yet indexed) and one unreadable submission.
\<close>

definition t0 :: string where
  "t0 = ''2024-01-01T00:00:00.000Z''"

definition fractions :: jsval where
  "fractions = JObj [(''title'', JStr ''Fractions''), (''prompt'', JStr ''Explain 1/2+1/3'')]"

definition ana :: "string \<Rightarrow> jsval" where
  "ana a = JObj [(''assignmentId'', JStr a), (''studentName'', JStr ''Ana''),
                 (''response'', JStr ''5/6'')]"

definition store0 :: kv where
  "store0 = Map.empty(''assignment:a0'' \<mapsto> Encoded (JObj [(''id'', JStr ''a0'')]),
                      ''submission:s0'' \<mapsto> Malformed)"

text \<open>
  How a create request can end, for the record key prefix \<open>pre\<close> and the index \<open>name\<close>:
  an exception or an error response before any write; an exception from the index update,
  after the record was written; or the success response after both writes.
\<close>

definition post_shape ::
  "string \<Rightarrow> string \<Rightarrow> string \<Rightarrow> kv \<Rightarrow> (error + response) \<times> kv \<Rightarrow> bool" where
  "post_shape pre name i kv res =
     ((\<exists>e. res = (Inl e, kv)) \<or>
      (\<exists>m s. s \<noteq> 201 \<and> res = (Inr (err m s), kv)) \<or>
      (\<exists>r e. getProp r ''id'' = Some (JStr i) \<and>
             pushIndex (kvPut kv (pre @ i) r) name i = Inl e \<and>
             res = (Inl e, kvPut kv (pre @ i) r)) \<or>
      (\<exists>r kv2. getProp r ''id'' = Some (JStr i) \<and>
             pushIndex (kvPut kv (pre @ i) r) name i = Inr kv2 \<and>
             res = (Inr (created i r), kv2)))"

section \<open>Basic facts about the helpers\<close>

lemma number_range: "- (2 ^ 53) \<le> sint (n :: 54 word) \<and> sint n < 2 ^ 53"
  using sint_ge[of n] sint_lt[of n] by simp

lemma trim_Nil [simp]: "trim [] = []"
  by (simp add: trim_def)

lemma nonblankD: "nonblank_string x \<Longrightarrow> \<exists>s. x = Some (JStr s) \<and> s \<noteq> [] \<and> trim s \<noteq> []"
  by (auto simp: nonblank_string_def split: option.splits jsval.splits)

lemma call_trim_optional:
  "optional_string x \<Longrightarrow> call_trim (or_else x (JStr [])) = Inr (trimmed x)"
  by (cases x; cases "the x") (auto simp: optional_string_def trimmed_def)

lemma call_trim_nonblank:
  "nonblank_string x \<Longrightarrow> truthy_opt x \<and> call_trim (or_else x JNull) = Inr (trimmed x) \<and> trimmed x \<noteq> []"
  by (auto dest!: nonblankD simp: trimmed_def)

lemma getProp_falsy: "\<not> truthy v \<Longrightarrow> getProp v k = None"
  by (cases v) auto

lemma getProp_or_empty: "getProp (if truthy body then body else JObj []) k = getProp body k"
  by (simp add: getProp_falsy)

lemma kvGet_kvPut: "kvGet (kvPut kv k v) k' = (if k' = k then v else kvGet kv k')"
  by (simp add: kvGet_def kvPut_def)

lemma getIndex_kvPut_other: "k \<noteq> ''index:'' @ n \<Longrightarrow> getIndex (kvPut kv k v) n = getIndex kv n"
  by (simp add: getIndex_def kvGet_kvPut)

lemma getIndex_kvPut_same: "truthy v \<Longrightarrow> getIndex (kvPut kv (''index:'' @ n) v) n = v"
  by (simp add: getIndex_def kvGet_kvPut)

lemma pushIndex_array:
  "getIndex kv n = JArr xs \<Longrightarrow>
   pushIndex kv n i = Inr (kvPut kv (''index:'' @ n) (JArr (if JStr i \<in> set xs then xs else xs @ [JStr i])))"
  by (simp add: pushIndex_def)

lemma handleAssignmentsPost_valid_gen:
  assumes "valid_assignment body"
  shows "handleAssignmentsPost i now kv body =
     (case pushIndex (kvPut kv (''assignment:'' @ i) (assignment_record i now body)) ''assignments'' i of
        Inl e \<Rightarrow> (Inl e, kvPut kv (''assignment:'' @ i) (assignment_record i now body))
      | Inr kv2 \<Rightarrow> (Inr (created i (assignment_record i now body)), kv2))"
proof -
  have t: "truthy_opt (getProp body ''title'')" "call_trim (or_else (getProp body ''title'') JNull) = Inr (trimmed (getProp body ''title''))"
     "trimmed (getProp body ''title'') \<noteq> []"
    using assms(1) call_trim_nonblank unfolding valid_assignment_def by blast+
  have p: "truthy_opt (getProp body ''prompt'')" "call_trim (or_else (getProp body ''prompt'') JNull) = Inr (trimmed (getProp body ''prompt''))"
     "trimmed (getProp body ''prompt'') \<noteq> []"
    using assms(1) call_trim_nonblank unfolding valid_assignment_def by blast+
  have g: "call_trim (or_else (getProp body ''gradeBand'') (JStr [])) = Inr (trimmed (getProp body ''gradeBand''))"
    using assms(1) call_trim_optional unfolding valid_assignment_def by blast
  have c: "call_trim (or_else (getProp body ''classPin'') (JStr [])) = Inr (trimmed (getProp body ''classPin''))"
    using assms(1) call_trim_optional unfolding valid_assignment_def by blast
  show ?thesis
    unfolding handleAssignmentsPost_def Let_def getProp_or_empty
    by (simp only: t p g c assignment_record_def created_def simp_thms if_True if_False sum.case)
qed

lemma handleSubmissionsPost_valid_gen:
  assumes "valid_submission kv body"
  shows "handleSubmissionsPost i now kv body =
     (case pushIndex (kvPut kv (''submission:'' @ i) (submission_record i now body)) ''submissions'' i of
        Inl e \<Rightarrow> (Inl e, kvPut kv (''submission:'' @ i) (submission_record i now body))
      | Inr kv2 \<Rightarrow> (Inr (created i (submission_record i now body)), kv2))"
proof -
  have a: "truthy_opt (getProp body ''assignmentId'')"
    using assms(1) unfolding valid_submission_def passes_field_checks_def by blast
  have t: "truthy_opt (getProp body ''studentName'')" "call_trim (or_else (getProp body ''studentName'') JNull) = Inr (trimmed (getProp body ''studentName''))"
     "trimmed (getProp body ''studentName'') \<noteq> []"
    using assms(1) call_trim_nonblank unfolding valid_submission_def passes_field_checks_def by blast+
  have p: "truthy_opt (getProp body ''response'')" "call_trim (or_else (getProp body ''response'') JNull) = Inr (trimmed (getProp body ''response''))"
     "trimmed (getProp body ''response'') \<noteq> []"
    using assms(1) call_trim_nonblank unfolding valid_submission_def passes_field_checks_def by blast+
  obtain k where k: "toStr (or_else (getProp body ''assignmentId'') JNull) = Inr k"
      "truthy (kvGet kv (''assignment:'' @ k))"
    using assms(1) unfolding valid_submission_def resolves_def by (auto split: sum.splits)
  have c: "call_trim (or_else (getProp body ''classPin'') (JStr [])) = Inr (trimmed (getProp body ''classPin''))"
    using assms(1) call_trim_optional unfolding valid_submission_def by blast
  have s: "call_trim (or_else (getProp body ''steps'') (JStr [])) = Inr (trimmed (getProp body ''steps''))"
    using assms(1) call_trim_optional unfolding valid_submission_def by blast
  have r: "call_trim (or_else (getProp body ''reflection'') (JStr [])) = Inr (trimmed (getProp body ''reflection''))"
    using assms(1) call_trim_optional unfolding valid_submission_def by blast
  show ?thesis
    unfolding handleSubmissionsPost_def Let_def getProp_or_empty
    by (simp only: a t p k c s r submission_record_def created_def simp_thms if_True if_False sum.case)
qed

lemma handleAssignmentsPost_valid:
  assumes "valid_assignment body" "getIndex kv ''assignments'' = JArr xs"
  shows "handleAssignmentsPost i now kv body =
     (Inr (created i (assignment_record i now body)),
      kvPut (kvPut kv (''assignment:'' @ i) (assignment_record i now body)) ''index:assignments''
        (JArr (if JStr i \<in> set xs then xs else xs @ [JStr i])))"
proof -
  have "pushIndex (kvPut kv (''assignment:'' @ i) r) ''assignments'' i =
      Inr (kvPut (kvPut kv (''assignment:'' @ i) r) ''index:assignments''
            (JArr (if JStr i \<in> set xs then xs else xs @ [JStr i])))" for r
    using assms(2) by (simp add: pushIndex_array getIndex_kvPut_other)
  then show ?thesis
    by (simp only: handleAssignmentsPost_valid_gen[OF assms(1)] sum.case)
qed

lemma handleSubmissionsPost_valid:
  assumes "valid_submission kv body" "getIndex kv ''submissions'' = JArr xs"
  shows "handleSubmissionsPost i now kv body =
     (Inr (created i (submission_record i now body)),
      kvPut (kvPut kv (''submission:'' @ i) (submission_record i now body)) ''index:submissions''
        (JArr (if JStr i \<in> set xs then xs else xs @ [JStr i])))"
proof -
  have "pushIndex (kvPut kv (''submission:'' @ i) r) ''submissions'' i =
      Inr (kvPut (kvPut kv (''submission:'' @ i) r) ''index:submissions''
            (JArr (if JStr i \<in> set xs then xs else xs @ [JStr i])))" for r
    using assms(2) by (simp add: pushIndex_array getIndex_kvPut_other)
  then show ?thesis
    by (simp only: handleSubmissionsPost_valid_gen[OF assms(1)] sum.case)
qed

lemma getIndex_truthy: "truthy (getIndex kv n)"
  by (simp add: getIndex_def Let_def)

lemma pushIndex_shape:
  assumes "pushIndex kv n i = Inr kv'"
  shows "\<exists>v. truthy v \<and> kv' = kvPut kv (''index:'' @ n) v"
proof (cases "getIndex kv n")
  case (JStr s)
  with getIndex_truthy[of kv n] have "truthy (JStr s)" by simp
  moreover from assms JStr have "kv' = kvPut kv (''index:'' @ n) (JStr s)"
    by (simp add: pushIndex_def split: if_splits)
  ultimately show ?thesis by blast
next
  case (JArr xs)
  with assms have "kv' = kvPut kv (''index:'' @ n) (JArr (if JStr i \<in> set xs then xs else xs @ [JStr i]))"
    by (simp add: pushIndex_def)
  moreover have "truthy (JArr (if JStr i \<in> set xs then xs else xs @ [JStr i]))" by simp
  ultimately show ?thesis by blast
qed (use assms in \<open>simp_all add: pushIndex_def\<close>)

lemma post_case:
  "(\<And>e. x = Inl e \<Longrightarrow> post_shape pre name i kv (f e)) \<Longrightarrow>
   (\<And>t. x = Inr t \<Longrightarrow> post_shape pre name i kv (g t)) \<Longrightarrow>
   post_shape pre name i kv (case x of Inl e \<Rightarrow> f e | Inr t \<Rightarrow> g t)"
  by (cases x) auto

lemma post_if:
  "post_shape pre name i kv a \<Longrightarrow> post_shape pre name i kv b \<Longrightarrow>
   post_shape pre name i kv (if c then a else b)"
  by simp

lemma post_exc: "post_shape pre name i kv (Inl e, kv)"
  by (simp add: post_shape_def)

lemma post_err400: "post_shape pre name i kv (Inr (err m 400), kv)"
  unfolding post_shape_def by (intro disjI2 disjI1 exI[of _ m] exI[of _ 400]) simp

lemma post_err404: "post_shape pre name i kv (Inr (err m 404), kv)"
  unfolding post_shape_def by (intro disjI2 disjI1 exI[of _ m] exI[of _ 404]) simp

lemma post_fail_gen:
  "getProp r ''id'' = Some (JStr i) \<Longrightarrow> pushIndex (kvPut kv (pre @ i) r) name i = Inl e \<Longrightarrow>
   post_shape pre name i kv (Inl e, kvPut kv (pre @ i) r)"
  unfolding post_shape_def by blast

lemma post_ok_gen:
  "getProp r ''id'' = Some (JStr i) \<Longrightarrow> pushIndex (kvPut kv (pre @ i) r) name i = Inr kv2 \<Longrightarrow>
   post_shape pre name i kv (Inr (created i r), kv2)"
  unfolding post_shape_def by blast

lemma post_fail:
  "pushIndex (kvPut kv (pre @ i) (JObj ((''id'', JStr i) # fs))) name i = Inl e \<Longrightarrow>
   post_shape pre name i kv (Inl e, kvPut kv (pre @ i) (JObj ((''id'', JStr i) # fs)))"
  by (rule post_fail_gen) simp_all

lemma post_ok:
  "pushIndex (kvPut kv (pre @ i) (JObj ((''id'', JStr i) # fs))) name i = Inr kv2 \<Longrightarrow>
   post_shape pre name i kv
     (Inr (json (JObj [(''ok'', JBool True), (''id'', JStr i),
                       (''item'', JObj ((''id'', JStr i) # fs))]) 201), kv2)"
  using post_ok_gen[of "JObj ((''id'', JStr i) # fs)" i kv pre name kv2]
  by (simp add: created_def)

lemma handleAssignmentsPost_shape:
  "post_shape ''assignment:'' ''assignments'' i kv (handleAssignmentsPost i now kv body)"
  unfolding handleAssignmentsPost_def Let_def
  by (intro post_case post_if post_exc post_err400 post_fail post_ok)

lemma handleSubmissionsPost_shape:
  "post_shape ''submission:'' ''submissions'' i kv (handleSubmissionsPost i now kv body)"
  unfolding handleSubmissionsPost_def Let_def
  by (intro post_case post_if post_exc post_err400 post_err404 post_fail post_ok)


section \<open>The record store reads absent and unparseable values alike\<close>

text \<open>
  Claim C8. For every key, \<open>kvGet\<close> returns \<^verbatim>\<open>null\<close> (absent) when nothing is stored under
  the key and when the stored text does not parse (the empty text, or a text on which
  \<^verbatim>\<open>JSON.parse\<close> throws); \<open>kvGet\<close> has no error result, so nothing is surfaced to the
  caller. Likewise \<open>getIndex\<close> reads an absent or unparseable index as the empty sequence.
\<close>

theorem kvGet_absent_or_unparseable:
  "(kv key = None \<or> kv key = Some Empty \<or> kv key = Some Malformed \<longrightarrow> kvGet kv key = JNull) \<and>
   (kv (''index:'' @ name) = None \<or> kv (''index:'' @ name) = Some Empty \<or>
    kv (''index:'' @ name) = Some Malformed \<longrightarrow> getIndex kv name = JArr [])"
  by (auto simp: kvGet_def getIndex_def)

theorem kvGet_absent_or_unparseable_witness:
  "kvGet (Map.empty(''assignment:a1'' \<mapsto> Malformed)) ''assignment:a1'' = JNull \<and>
   getIndex (Map.empty(''index:assignments'' \<mapsto> Malformed)) ''assignments'' = JArr []"
  using kvGet_absent_or_unparseable
          [where kv = "Map.empty(''assignment:a1'' \<mapsto> Malformed)"
             and key = "''assignment:a1''" and name = "''assignments''"]
        kvGet_absent_or_unparseable
          [where kv = "Map.empty(''index:assignments'' \<mapsto> Malformed)"
             and key = "''assignment:a1''" and name = "''assignments''"]
  by simp

section \<open>Create-Assignment: validation\<close>



lemma err_inject: "err m s = err m' s' \<longleftrightarrow> m = m' \<and> s = s'"
  by (auto simp: err_def json_def)

lemma status_of_err: "status_of (err m s) = s"
  by (simp add: err_def json_def)

lemma status_of_created: "status_of (created i r) = 201"
  by (simp add: created_def json_def)

lemma handleSubmissionsPost_checked:
  assumes "passes_field_checks body"
  shows "handleSubmissionsPost i now kv body =
     (case toStr (or_else (getProp body ''assignmentId'') JNull) of
        Inl e \<Rightarrow> (Inl e, kv)
      | Inr akey \<Rightarrow>
          if \<not> truthy (kvGet kv (''assignment:'' @ akey))
          then (Inr (err ''assignment not found'' 404), kv)
          else handleSubmissionsPost i now kv body)"
proof -
  have a: "truthy_opt (getProp body ''assignmentId'')"
    using assms unfolding passes_field_checks_def by blast
  have t: "truthy_opt (getProp body ''studentName'')"
    "call_trim (or_else (getProp body ''studentName'') JNull) = Inr (trimmed (getProp body ''studentName''))"
    "trimmed (getProp body ''studentName'') \<noteq> []"
    using assms call_trim_nonblank unfolding passes_field_checks_def by blast+
  have p: "truthy_opt (getProp body ''response'')"
    "call_trim (or_else (getProp body ''response'') JNull) = Inr (trimmed (getProp body ''response''))"
    "trimmed (getProp body ''response'') \<noteq> []"
    using assms call_trim_nonblank unfolding passes_field_checks_def by blast+
  show ?thesis
  proof (cases "toStr (or_else (getProp body ''assignmentId'') JNull)")
    case (Inl e)
    then show ?thesis
      unfolding handleSubmissionsPost_def Let_def getProp_or_empty
      by (simp only: a t p Inl simp_thms if_True if_False sum.case)
  next
    case (Inr k)
    show ?thesis
    proof (cases "truthy (kvGet kv (''assignment:'' @ k))")
      case True
      with Inr show ?thesis by simp
    next
      case False
      then show ?thesis
        unfolding handleSubmissionsPost_def Let_def getProp_or_empty
        by (simp only: a t p Inr simp_thms if_True if_False sum.case)
    qed
  qed
qed

section \<open>Create-Submission: the referential check\<close>

text \<open>
  Claim C4, as amended. A Create-Submission request that passes the field checks (a truthy
  \<^verbatim>\<open>assignmentId\<close>, and \<^verbatim>\<open>studentName\<close> and \<^verbatim>\<open>response\<close> non-empty after trimming), whose
  \<^verbatim>\<open>assignmentId\<close> converts to a key string, and whose \<^verbatim>\<open>assignmentId\<close> does not resolve
  to a stored assignment record is answered with status 404 and the message
  \<^verbatim>\<open>assignment not found\<close>, a response that differs from every status-400 validation
  failure; the whole store, and with it the submission records and the submissions index,
  is left as it was.
\<close>

theorem create_submission_unknown_assignment:
  assumes "passes_field_checks body" and "has_key body" and "\<not> resolves kv body"
  shows "handleSubmissionsPost i now kv body = (Inr (err ''assignment not found'' 404), kv) \<and>
         status_of (err ''assignment not found'' 404) = 404 \<and>
         (\<forall>m. err ''assignment not found'' 404 \<noteq> err m 400)"
proof -
  obtain k where k: "toStr (or_else (getProp body ''assignmentId'') JNull) = Inr k"
    using assms(2) unfolding has_key_def by (auto split: sum.splits)
  have n: "\<not> truthy (kvGet kv (''assignment:'' @ k))"
    using assms(3) unfolding resolves_def k by simp
  have "handleSubmissionsPost i now kv body = (Inr (err ''assignment not found'' 404), kv)"
    using handleSubmissionsPost_checked[OF assms(1), of i now kv] k n by simp
  then show ?thesis
    by (simp add: status_of_err err_inject)
qed

theorem create_submission_unknown_assignment_witness:
  "handleSubmissionsPost ''s1'' ''2024-01-01T00:00:00.000Z''
       (Map.empty(''assignment:a1'' \<mapsto> Encoded (JObj [(''id'', JStr ''a1'')]),
                  ''index:submissions'' \<mapsto> Encoded (JArr [JStr ''s0''])))
       (JObj [(''assignmentId'', JStr ''a2''), (''studentName'', JStr ''Ana''),
              (''response'', JStr ''5/6'')])
     = (Inr (err ''assignment not found'' 404),
        Map.empty(''assignment:a1'' \<mapsto> Encoded (JObj [(''id'', JStr ''a1'')]),
                  ''index:submissions'' \<mapsto> Encoded (JArr [JStr ''s0''])))"
  using create_submission_unknown_assignment
          [where body = "JObj [(''assignmentId'', JStr ''a2''), (''studentName'', JStr ''Ana''),
                            (''response'', JStr ''5/6'')]"
             and kv = "Map.empty(''assignment:a1'' \<mapsto> Encoded (JObj [(''id'', JStr ''a1'')]),
                                 ''index:submissions'' \<mapsto> Encoded (JArr [JStr ''s0'']))"
             and i = "''s1''" and now = "''2024-01-01T00:00:00.000Z''"]
  by (simp add: passes_field_checks_def has_key_def resolves_def nonblank_string_def trim_def
                is_ws_def kvGet_def)

text \<open>
  The claim as first stated asks this of every request that passes the field checks and
  names no stored assignment. It fails where the \<^verbatim>\<open>assignmentId\<close> is an object with an own
  property \<^verbatim>\<open>toString\<close>: it is truthy, nothing resolves for it, and the template literal
  \<^verbatim>\<open>`assignment:${assignmentId}`\<close> raises a TypeError, so there is no 404 response.
\<close>

theorem create_submission_counterexample:
  "passes_field_checks (JObj [(''assignmentId'', JObj [(''toString'', JNum 1)]),
                              (''studentName'', JStr ''Ana''), (''response'', JStr ''5/6'')]) \<and>
   \<not> resolves Map.empty (JObj [(''assignmentId'', JObj [(''toString'', JNum 1)]),
                              (''studentName'', JStr ''Ana''), (''response'', JStr ''5/6'')]) \<and>
   handleSubmissionsPost ''s1'' ''2024-01-01T00:00:00.000Z'' Map.empty
       (JObj [(''assignmentId'', JObj [(''toString'', JNum 1)]),
              (''studentName'', JStr ''Ana''), (''response'', JStr ''5/6'')])
     = (Inl TypeError, Map.empty)"
  by (simp add: handleSubmissionsPost_def passes_field_checks_def resolves_def
        nonblank_string_def trim_def is_ws_def)

lemma post_shape_frame:
  assumes "post_shape pre name i kv res" "k \<noteq> pre @ i" "k \<noteq> ''index:'' @ name"
  shows "snd res k = kv k"
proof -
  consider (a) e where "res = (Inl e, kv)"
    | (b) m s where "res = (Inr (err m s), kv)"
    | (c) r e where "res = (Inl e, kvPut kv (pre @ i) r)"
    | (d) r kv2 where "pushIndex (kvPut kv (pre @ i) r) name i = Inr kv2"
        "res = (Inr (created i r), kv2)"
    using assms(1) unfolding post_shape_def by blast
  then show ?thesis
  proof cases
    case d
    from pushIndex_shape[OF d(1)] obtain v where
      "kv2 = kvPut (kvPut kv (pre @ i) r) (''index:'' @ name) v" by blast
    with d assms(2,3) show ?thesis by (simp add: kvPut_def)
  qed (use assms(2,3) in \<open>simp_all add: kvPut_def\<close>)
qed

lemma post_shape_success:
  assumes "post_shape pre name i kv res" "fst res = Inr resp" "status_of resp = 201"
  shows "\<exists>r v. resp = created i r \<and>
               snd res = kv(pre @ i \<mapsto> Encoded r, ''index:'' @ name \<mapsto> Encoded v)"
proof -
  consider (a) e where "res = (Inl e, kv)"
    | (b) m s where "s \<noteq> 201" "res = (Inr (err m s), kv)"
    | (c) r e where "res = (Inl e, kvPut kv (pre @ i) r)"
    | (d) r kv2 where "pushIndex (kvPut kv (pre @ i) r) name i = Inr kv2"
        "res = (Inr (created i r), kv2)"
    using assms(1) unfolding post_shape_def by blast
  then show ?thesis
  proof cases
    case d
    from pushIndex_shape[OF d(1)] obtain v where
      "kv2 = kvPut (kvPut kv (pre @ i) r) (''index:'' @ name) v" by blast
    with d assms(2) show ?thesis by (auto simp: kvPut_def)
  qed (use assms(2,3) in \<open>auto simp: status_of_err\<close>)
qed

lemma valid_fractions: "valid_assignment fractions"
  by (simp add: valid_assignment_def fractions_def nonblank_string_def optional_string_def
                trim_def is_ws_def)

section \<open>What a create request writes\<close>

text \<open>
  Claim C9 (frame). Whatever a Create-Assignment request ends with, every key other than
  \<^verbatim>\<open>assignment:{id}\<close> and \<^verbatim>\<open>index:assignments\<close> holds after the request what it held
  before; when the request succeeds (status 201), the store after it is the store before
  it with exactly these two keys written. The same holds for Create-Submission with
  \<^verbatim>\<open>submission:{id}\<close> and \<^verbatim>\<open>index:submissions\<close>.
\<close>

theorem create_writes_two_keys:
  "(\<forall>k. k \<noteq> ''assignment:'' @ i \<and> k \<noteq> ''index:assignments'' \<longrightarrow>
        snd (handleAssignmentsPost i now kv body) k = kv k) \<and>
   (\<forall>resp. fst (handleAssignmentsPost i now kv body) = Inr resp \<and> status_of resp = 201 \<longrightarrow>
        (\<exists>r v. snd (handleAssignmentsPost i now kv body) =
                  kv(''assignment:'' @ i \<mapsto> Encoded r, ''index:assignments'' \<mapsto> Encoded v))) \<and>
   (\<forall>k. k \<noteq> ''submission:'' @ i \<and> k \<noteq> ''index:submissions'' \<longrightarrow>
        snd (handleSubmissionsPost i now kv body) k = kv k) \<and>
   (\<forall>resp. fst (handleSubmissionsPost i now kv body) = Inr resp \<and> status_of resp = 201 \<longrightarrow>
        (\<exists>r v. snd (handleSubmissionsPost i now kv body) =
                  kv(''submission:'' @ i \<mapsto> Encoded r, ''index:submissions'' \<mapsto> Encoded v)))"
proof (intro conjI allI impI)
  fix k assume "k \<noteq> ''assignment:'' @ i \<and> k \<noteq> ''index:assignments''"
  then show "snd (handleAssignmentsPost i now kv body) k = kv k"
    by (intro post_shape_frame[OF handleAssignmentsPost_shape]) simp_all
next
  fix resp
  assume "fst (handleAssignmentsPost i now kv body) = Inr resp \<and> status_of resp = 201"
  then show "\<exists>r v. snd (handleAssignmentsPost i now kv body) =
                  kv(''assignment:'' @ i \<mapsto> Encoded r, ''index:assignments'' \<mapsto> Encoded v)"
    using post_shape_success[OF handleAssignmentsPost_shape] by fastforce
next
  fix k assume "k \<noteq> ''submission:'' @ i \<and> k \<noteq> ''index:submissions''"
  then show "snd (handleSubmissionsPost i now kv body) k = kv k"
    by (intro post_shape_frame[OF handleSubmissionsPost_shape]) simp_all
next
  fix resp
  assume "fst (handleSubmissionsPost i now kv body) = Inr resp \<and> status_of resp = 201"
  then show "\<exists>r v. snd (handleSubmissionsPost i now kv body) =
                  kv(''submission:'' @ i \<mapsto> Encoded r, ''index:submissions'' \<mapsto> Encoded v)"
    using post_shape_success[OF handleSubmissionsPost_shape] by fastforce
qed

lemma getIndex_store0: "getIndex store0 n = JArr []"
  by (simp add: getIndex_def kvGet_def store0_def)

lemma valid_ana: "valid_submission store0 (ana ''a0'')"
  by (simp add: valid_submission_def passes_field_checks_def resolves_def ana_def store0_def
        nonblank_string_def optional_string_def trim_def is_ws_def kvGet_def)

text \<open>
  The frame at the example store: an assignment is created beside an unreadable
  submission, and a submission beside the assignment it answers.
\<close>

theorem create_writes_two_keys_witness:
  "snd (handleAssignmentsPost ''a1'' t0 store0 fractions) ''submission:s0'' = store0 ''submission:s0'' \<and>
   (\<exists>r v. snd (handleAssignmentsPost ''a1'' t0 store0 fractions) =
            store0(''assignment:a1'' \<mapsto> Encoded r, ''index:assignments'' \<mapsto> Encoded v)) \<and>
   snd (handleSubmissionsPost ''s1'' t0 store0 (ana ''a0'')) ''assignment:a0'' = store0 ''assignment:a0'' \<and>
   (\<exists>r v. snd (handleSubmissionsPost ''s1'' t0 store0 (ana ''a0'')) =
            store0(''submission:s1'' \<mapsto> Encoded r, ''index:submissions'' \<mapsto> Encoded v))"
proof -
  note A = create_writes_two_keys
             [where i = "''a1''" and now = t0 and kv = store0 and body = fractions]
  note S = create_writes_two_keys
             [where i = "''s1''" and now = t0 and kv = store0 and body = "ana ''a0''"]
  have a: "fst (handleAssignmentsPost ''a1'' t0 store0 fractions) =
             Inr (created ''a1'' (assignment_record ''a1'' t0 fractions))"
    by (simp add: handleAssignmentsPost_valid[OF valid_fractions getIndex_store0])
  have s: "fst (handleSubmissionsPost ''s1'' t0 store0 (ana ''a0'')) =
             Inr (created ''s1'' (submission_record ''s1'' t0 (ana ''a0'')))"
    by (simp add: handleSubmissionsPost_valid[OF valid_ana getIndex_store0])
  have 1: "snd (handleAssignmentsPost ''a1'' t0 store0 fractions) ''submission:s0'' = store0 ''submission:s0''"
    using A by simp
  have 2: "\<exists>r v. snd (handleAssignmentsPost ''a1'' t0 store0 fractions) =
            store0(''assignment:a1'' \<mapsto> Encoded r, ''index:assignments'' \<mapsto> Encoded v)"
    using A a by (simp add: status_of_created)
  have 3: "snd (handleSubmissionsPost ''s1'' t0 store0 (ana ''a0'')) ''assignment:a0'' = store0 ''assignment:a0''"
    using S by simp
  have 4: "\<exists>r v. snd (handleSubmissionsPost ''s1'' t0 store0 (ana ''a0'')) =
            store0(''submission:s1'' \<mapsto> Encoded r, ''index:submissions'' \<mapsto> Encoded v)"
    using S s by (simp add: status_of_created)
  from 1 2 3 4 show ?thesis by blast
qed

lemma persisted_after_push:
  assumes "k \<noteq> ''index:'' @ name"
  shows "snd (case pushIndex (kvPut kv k r) name i of
               Inl e \<Rightarrow> (Inl e, kvPut kv k r)
             | Inr kv2 \<Rightarrow> (Inr resp, kv2)) k = Some (Encoded r)"
proof (cases "pushIndex (kvPut kv k r) name i")
  case (Inl e)
  then show ?thesis by (simp add: kvPut_def)
next
  case (Inr kv2)
  from pushIndex_shape[OF Inr] obtain v where "kv2 = kvPut (kvPut kv k r) (''index:'' @ name) v"
    by blast
  with Inr assms show ?thesis by (simp add: kvPut_def)
qed


lemma submission_persisted:
  "valid_submission kv body \<Longrightarrow>
   snd (handleSubmissionsPost i now kv body) (''submission:'' @ i) =
     Some (Encoded (submission_record i now body))"
  by (simp only: handleSubmissionsPost_valid_gen) (rule persisted_after_push, simp)

section \<open>Create-Submission keeps the assignment id as it was sent\<close>

text \<open>
  Claim C10. Create-Submission never trims \<^verbatim>\<open>assignmentId\<close>: a string id is checked for
  truthiness only (it must be non-empty), the assignment is looked up under the key made
  of the id as sent, and the id is stored as sent in the persisted record, whereas
  \<^verbatim>\<open>studentName\<close> and the other string fields are stored trimmed. So with the other
  required fields in order, any non-empty id that fails the lookup, a white-space-only one
  included, is answered with 404 and not with 400.
\<close>

theorem assignmentId_verbatim:
  assumes "getProp body ''assignmentId'' = Some (JStr a)" and "a \<noteq> []"
    and "nonblank_string (getProp body ''studentName'')"
    and "nonblank_string (getProp body ''response'')"
  shows "(\<not> truthy (kvGet kv (''assignment:'' @ a)) \<longrightarrow>
            handleSubmissionsPost i now kv body = (Inr (err ''assignment not found'' 404), kv)) \<and>
         (truthy (kvGet kv (''assignment:'' @ a)) \<and>
          optional_string (getProp body ''classPin'') \<and>
          optional_string (getProp body ''steps'') \<and>
          optional_string (getProp body ''reflection'') \<longrightarrow>
            snd (handleSubmissionsPost i now kv body) (''submission:'' @ i) =
              Some (Encoded (submission_record i now body)) \<and>
            getProp (submission_record i now body) ''assignmentId'' = Some (JStr a) \<and>
            getProp (submission_record i now body) ''studentName'' =
              Some (JStr (trimmed (getProp body ''studentName''))))"
proof -
  have c: "passes_field_checks body"
    using assms by (simp add: passes_field_checks_def)
  have k: "toStr (or_else (getProp body ''assignmentId'') JNull) = Inr a"
    using assms(1,2) by simp
  show ?thesis
  proof (intro conjI impI)
    assume "\<not> truthy (kvGet kv (''assignment:'' @ a))"
    then show "handleSubmissionsPost i now kv body = (Inr (err ''assignment not found'' 404), kv)"
      using handleSubmissionsPost_checked[OF c, of i now kv] k by simp
  next
    assume h: "truthy (kvGet kv (''assignment:'' @ a)) \<and>
          optional_string (getProp body ''classPin'') \<and>
          optional_string (getProp body ''steps'') \<and>
          optional_string (getProp body ''reflection'')"
    then have "valid_submission kv body"
      using c by (simp add: valid_submission_def resolves_def k)
    then show "snd (handleSubmissionsPost i now kv body) (''submission:'' @ i) =
              Some (Encoded (submission_record i now body))"
      by (rule submission_persisted)
  next
    show "getProp (submission_record i now body) ''assignmentId'' = Some (JStr a)"
      using assms(1,2) by (simp add: submission_record_def)
  next
    show "getProp (submission_record i now body) ''studentName'' =
              Some (JStr (trimmed (getProp body ''studentName'')))"
      by (simp add: submission_record_def)
  qed
qed

theorem assignmentId_verbatim_witness:
  "handleSubmissionsPost ''s1'' t0 store0 (ana '' a0 '')
     = (Inr (err ''assignment not found'' 404), store0) \<and>
   handleSubmissionsPost ''s1'' t0 store0 (ana ''  '')
     = (Inr (err ''assignment not found'' 404), store0) \<and>
   snd (handleSubmissionsPost ''s1'' t0 (store0(''assignment: a0 '' \<mapsto> Encoded (JObj [])))
          (JObj [(''assignmentId'', JStr '' a0 ''), (''studentName'', JStr '' Ana ''),
                 (''response'', JStr ''5/6'')])) ''submission:s1''
     = Some (Encoded (JObj [(''id'', JStr ''s1''), (''assignmentId'', JStr '' a0 ''),
                            (''studentName'', JStr ''Ana''), (''classPin'', JStr []),
                            (''response'', JStr ''5/6''), (''steps'', JStr []),
                            (''reflection'', JStr []), (''submittedAt'', JStr t0)]))"
  using assignmentId_verbatim
          [where body = "ana '' a0 ''" and a = "'' a0 ''" and kv = store0
             and i = "''s1''" and now = t0]
        assignmentId_verbatim
          [where body = "ana ''  ''" and a = "''  ''" and kv = store0
             and i = "''s1''" and now = t0]
        assignmentId_verbatim
          [where body = "JObj [(''assignmentId'', JStr '' a0 ''),
                               (''studentName'', JStr '' Ana ''), (''response'', JStr ''5/6'')]"
             and a = "'' a0 ''"
             and kv = "store0(''assignment: a0 '' \<mapsto> Encoded (JObj []))"
             and i = "''s1''" and now = t0]
  by (simp add: ana_def store0_def kvGet_def nonblank_string_def optional_string_def trim_def
        is_ws_def submission_record_def trimmed_def)

lemma fetchAll_strings:
  "fetchAll kv pre (map JStr ids) = Inr (map (\<lambda>j. kvGet kv (pre @ j)) ids)"
  by (induction ids) simp_all

lemma handleAssignmentsGet_ids:
  "index_ids kv ''assignments'' ids \<Longrightarrow>
   handleAssignmentsGet kv = Inr (listing (rev (resolved kv ''assignment:'' ids)))"
  by (simp add: handleAssignmentsGet_def index_ids_def fetchAll_strings listing_def resolved_def)

lemma index_ids_after_push:
  "index_ids (kvPut kv' (''index:'' @ n) (JArr (map JStr ids))) n ids"
  unfolding index_ids_def by (rule getIndex_kvPut_same) simp

lemma push_ids:
  "(if JStr i \<in> set (map JStr ids) then map JStr ids else map JStr ids @ [JStr i]) =
   map JStr (if i \<in> set ids then ids else ids @ [i])"
  by auto

lemma truthy_assignment_record: "truthy (assignment_record i now body)"
  by (simp add: assignment_record_def)

lemma truthy_submission_record: "truthy (submission_record i now body)"
  by (simp add: submission_record_def)

lemma handleAssignmentsPost_ids:
  assumes "valid_assignment body" and "index_ids kv ''assignments'' ids"
  shows "handleAssignmentsPost i now kv body =
     (Inr (created i (assignment_record i now body)),
      kvPut (kvPut kv (''assignment:'' @ i) (assignment_record i now body)) (''index:'' @ ''assignments'')
        (JArr (map JStr (if i \<in> set ids then ids else ids @ [i]))))"
  using handleAssignmentsPost_valid[OF assms(1), of kv "map JStr ids" i now] assms(2)
  by (simp only: index_ids_def push_ids append.simps simp_thms)

lemma resolved_member:
  "j \<in> set ids \<Longrightarrow> truthy (kvGet kv (pre @ j)) \<Longrightarrow> kvGet kv (pre @ j) \<in> set (resolved kv pre ids)"
  by (simp add: resolved_def)

section \<open>Create-Assignment: the created record is persisted, indexed and listed\<close>

text \<open>
  Claim C1, as amended. For every request body whose \<^verbatim>\<open>title\<close> and \<^verbatim>\<open>prompt\<close> are strings
  that are non-empty after trimming and whose \<^verbatim>\<open>gradeBand\<close> and \<^verbatim>\<open>classPin\<close> are each
  absent, falsy or a string, on a store whose assignments index reads as a sequence of ids,
  Create-Assignment responds with status 201 and body \<^verbatim>\<open>{ok:true, id, item}\<close>, where
  \<^verbatim>\<open>item\<close> is the record of the trimmed fields and is exactly what is persisted under
  \<^verbatim>\<open>assignment:{id}\<close>; afterwards the index contains the id (appended at the end unless
  it was there already), and List-Assignments succeeds with that record among its items.
\<close>

theorem create_assignment_persists_and_lists:
  assumes "valid_assignment body" and "index_ids kv ''assignments'' ids"
  shows "\<exists>kv'. handleAssignmentsPost i now kv body =
               (Inr (json (JObj [(''ok'', JBool True), (''id'', JStr i),
                                 (''item'', assignment_record i now body)]) 201), kv') \<and>
             kv' (''assignment:'' @ i) = Some (Encoded (assignment_record i now body)) \<and>
             index_ids kv' ''assignments'' (if i \<in> set ids then ids else ids @ [i]) \<and>
             (\<exists>items. handleAssignmentsGet kv' = Inr (listing items) \<and>
                      assignment_record i now body \<in> set items)"
proof -
  define r where "r = assignment_record i now body"
  define ids' where "ids' = (if i \<in> set ids then ids else ids @ [i])"
  define kv1 where "kv1 = kvPut kv (''assignment:'' @ i) r"
  define kv' where "kv' = kvPut kv1 (''index:'' @ ''assignments'') (JArr (map JStr ids'))"
  have 1: "handleAssignmentsPost i now kv body =
             (Inr (json (JObj [(''ok'', JBool True), (''id'', JStr i), (''item'', r)]) 201), kv')"
    using handleAssignmentsPost_ids[OF assms, of i now]
    by (simp only: created_def r_def ids'_def kv1_def kv'_def)
  have 2: "kv' (''assignment:'' @ i) = Some (Encoded r)"
    by (simp add: kv'_def kv1_def kvPut_def)
  have 3: "index_ids kv' ''assignments'' ids'"
    unfolding kv'_def by (rule index_ids_after_push)
  have g: "kvGet kv' (''assignment:'' @ i) = r"
    by (simp add: kv'_def kv1_def kvGet_kvPut)
  have "i \<in> set ids'" by (simp add: ids'_def)
  moreover have "truthy (kvGet kv' (''assignment:'' @ i))"
    unfolding g r_def by (rule truthy_assignment_record)
  ultimately have "kvGet kv' (''assignment:'' @ i) \<in> set (resolved kv' ''assignment:'' ids')"
    by (rule resolved_member)
  then have "r \<in> set (rev (resolved kv' ''assignment:'' ids'))"
    by (simp only: g set_rev)
  with handleAssignmentsGet_ids[OF 3] have 4:
    "\<exists>items. handleAssignmentsGet kv' = Inr (listing items) \<and> r \<in> set items"
    by blast
  from 1 2 3 4 show ?thesis unfolding r_def ids'_def by blast
qed

theorem create_assignment_persists_and_lists_witness:
  "\<exists>kv'. handleAssignmentsPost ''a1'' t0 store0 fractions =
               (Inr (json (JObj [(''ok'', JBool True), (''id'', JStr ''a1''),
                                 (''item'', assignment_record ''a1'' t0 fractions)]) 201), kv') \<and>
             kv' ''assignment:a1'' = Some (Encoded (assignment_record ''a1'' t0 fractions)) \<and>
             index_ids kv' ''assignments'' [''a1''] \<and>
             (\<exists>items. handleAssignmentsGet kv' = Inr (listing items) \<and>
                      assignment_record ''a1'' t0 fractions \<in> set items)"
  using create_assignment_persists_and_lists
          [where body = fractions and kv = store0 and ids = "[]" and i = "''a1''" and now = t0]
        valid_fractions
  by (simp add: index_ids_def getIndex_store0)

text \<open>
  The claim as first stated asks this of every body with a proper title and prompt. It
  fails where an optional field is a truthy value that is not a string: with
  \<^verbatim>\<open>gradeBand: 5\<close> the call \<^verbatim>\<open>(body.gradeBand || "").trim()\<close> raises a TypeError, so
  there is no 201 response, and nothing is written.
\<close>

theorem create_assignment_counterexample:
  "nonblank_string (getProp (JObj [(''title'', JStr ''Fractions''),
                                   (''prompt'', JStr ''Explain 1/2+1/3''),
                                   (''gradeBand'', JNum 5)]) ''title'') \<and>
   nonblank_string (getProp (JObj [(''title'', JStr ''Fractions''),
                                   (''prompt'', JStr ''Explain 1/2+1/3''),
                                   (''gradeBand'', JNum 5)]) ''prompt'') \<and>
   handleAssignmentsPost ''a1'' ''2024-01-01T00:00:00.000Z'' Map.empty
       (JObj [(''title'', JStr ''Fractions''), (''prompt'', JStr ''Explain 1/2+1/3''),
              (''gradeBand'', JNum 5)])
     = (Inl TypeError, Map.empty)"
  by (simp add: handleAssignmentsPost_def nonblank_string_def trim_def is_ws_def)


section \<open>Time stamps: the caller's value or the server's time\<close>




lemma handleSubmissionsGet_ids:
  "index_ids kv ''submissions'' ids \<Longrightarrow> x \<noteq> [] \<Longrightarrow>
   handleSubmissionsGet kv (Some x) =
     Inr (listing (rev (filter (\<lambda>s. getProp s ''assignmentId'' = Some (JStr x))
                          (resolved kv ''submission:'' ids))))"
  by (simp add: handleSubmissionsGet_def index_ids_def fetchAll_strings listing_def resolved_def)

lemma handleSubmissionsGet_all:
  "index_ids kv ''submissions'' ids \<Longrightarrow> q = None \<or> q = Some [] \<Longrightarrow>
   handleSubmissionsGet kv q = Inr (listing (rev (resolved kv ''submission:'' ids)))"
  by (auto simp: handleSubmissionsGet_def index_ids_def fetchAll_strings listing_def resolved_def)

lemma handleSubmissionsPost_ids:
  assumes "valid_submission kv body" and "index_ids kv ''submissions'' ids"
  shows "handleSubmissionsPost i now kv body =
     (Inr (created i (submission_record i now body)),
      kvPut (kvPut kv (''submission:'' @ i) (submission_record i now body)) (''index:'' @ ''submissions'')
        (JArr (map JStr (if i \<in> set ids then ids else ids @ [i]))))"
  using handleSubmissionsPost_valid[OF assms(1), of "map JStr ids" i now] assms(2)
  by (simp only: index_ids_def push_ids append.simps simp_thms)

lemma resolved_after_create:
  assumes "i \<notin> set ids" and "truthy r" and "\<And>j. pre @ j \<noteq> ik"
  shows "resolved (kvPut (kvPut kv (pre @ i) r) ik v) pre (ids @ [i]) =
         resolved kv pre ids @ [r]"
proof -
  define kv' where "kv' = kvPut (kvPut kv (pre @ i) r) ik v"
  have new: "kvGet kv' (pre @ i) = r"
    unfolding kv'_def using assms(3)[of i] by (simp add: kvGet_kvPut)
  have old: "kvGet kv' (pre @ j) = kvGet kv (pre @ j)" if "j \<in> set ids" for j
  proof -
    from that assms(1) have "j \<noteq> i" by blast
    then show ?thesis
      unfolding kv'_def using assms(3)[of j] by (simp add: kvGet_kvPut)
  qed
  have m: "map (\<lambda>j. kvGet kv' (pre @ j)) ids = map (\<lambda>j. kvGet kv (pre @ j)) ids"
    by (rule map_cong[OF refl]) (rule old)
  have "resolved kv' pre (ids @ [i]) = resolved kv pre ids @ [r]"
    by (simp add: resolved_def m new assms(2))
  then show ?thesis unfolding kv'_def .
qed

lemma create_assignment_resolved:
  assumes "valid_assignment body" and "index_ids kv ''assignments'' ids" and "i \<notin> set ids"
  shows "index_ids (snd (handleAssignmentsPost i now kv body)) ''assignments'' (ids @ [i]) \<and>
         resolved (snd (handleAssignmentsPost i now kv body)) ''assignment:'' (ids @ [i]) =
           resolved kv ''assignment:'' ids @ [assignment_record i now body]"
proof -
  have s: "snd (handleAssignmentsPost i now kv body) =
      kvPut (kvPut kv (''assignment:'' @ i) (assignment_record i now body)) (''index:'' @ ''assignments'')
        (JArr (map JStr (ids @ [i])))"
    using handleAssignmentsPost_ids[OF assms(1,2), of i now] assms(3)
    by (simp only: snd_conv if_False)
  show ?thesis
    unfolding s
    by (intro conjI index_ids_after_push resolved_after_create assms(3) truthy_assignment_record)
       simp
qed

section \<open>List-Assignments: newest first\<close>

text \<open>
  Claim C3. List-Assignments returns the records named by the assignments index, newest
  first: the records are fetched in index order, those that fail to resolve are dropped,
  and the sequence is reversed. In particular, after assignments A, B and C are created in
  this order (under distinct ids not yet in the index), the listing begins with C, B, A,
  followed by what was listed before; from an empty index it is exactly [C, B, A].
\<close>

theorem list_assignments_newest_first:
  "(index_ids kv ''assignments'' ids \<longrightarrow>
      handleAssignmentsGet kv = Inr (listing (rev (resolved kv ''assignment:'' ids)))) \<and>
   (valid_assignment A \<and> valid_assignment B \<and> valid_assignment C \<and>
    index_ids kv ''assignments'' ids \<and> distinct [a, b, c] \<and>
    a \<notin> set ids \<and> b \<notin> set ids \<and> c \<notin> set ids \<longrightarrow>
      handleAssignmentsGet
        (snd (handleAssignmentsPost c tc
           (snd (handleAssignmentsPost b tb
              (snd (handleAssignmentsPost a ta kv A)) B)) C))
      = Inr (listing ([assignment_record c tc C, assignment_record b tb B,
                       assignment_record a ta A] @ rev (resolved kv ''assignment:'' ids))))"
proof (intro conjI impI)
  assume "index_ids kv ''assignments'' ids"
  then show "handleAssignmentsGet kv = Inr (listing (rev (resolved kv ''assignment:'' ids)))"
    by (rule handleAssignmentsGet_ids)
next
  assume h: "valid_assignment A \<and> valid_assignment B \<and> valid_assignment C \<and>
    index_ids kv ''assignments'' ids \<and> distinct [a, b, c] \<and>
    a \<notin> set ids \<and> b \<notin> set ids \<and> c \<notin> set ids"
  define kv1 where "kv1 = snd (handleAssignmentsPost a ta kv A)"
  define kv2 where "kv2 = snd (handleAssignmentsPost b tb kv1 B)"
  define kv3 where "kv3 = snd (handleAssignmentsPost c tc kv2 C)"
  have 1: "index_ids kv1 ''assignments'' (ids @ [a])"
    "resolved kv1 ''assignment:'' (ids @ [a]) =
       resolved kv ''assignment:'' ids @ [assignment_record a ta A]"
    unfolding kv1_def using create_assignment_resolved[of A kv ids a ta] h by blast+
  have "b \<notin> set (ids @ [a])" using h by auto
  then have 2: "index_ids kv2 ''assignments'' ((ids @ [a]) @ [b])"
    "resolved kv2 ''assignment:'' ((ids @ [a]) @ [b]) =
       resolved kv1 ''assignment:'' (ids @ [a]) @ [assignment_record b tb B]"
    unfolding kv2_def using create_assignment_resolved[of B kv1 "ids @ [a]" b tb] h 1(1) by blast+
  have "c \<notin> set ((ids @ [a]) @ [b])" using h by auto
  then have 3: "index_ids kv3 ''assignments'' (((ids @ [a]) @ [b]) @ [c])"
    "resolved kv3 ''assignment:'' (((ids @ [a]) @ [b]) @ [c]) =
       resolved kv2 ''assignment:'' ((ids @ [a]) @ [b]) @ [assignment_record c tc C]"
    unfolding kv3_def
    using create_assignment_resolved[of C kv2 "(ids @ [a]) @ [b]" c tc] h 2(1) by blast+
  have "handleAssignmentsGet kv3 =
      Inr (listing ([assignment_record c tc C, assignment_record b tb B,
                     assignment_record a ta A] @ rev (resolved kv ''assignment:'' ids)))"
    unfolding handleAssignmentsGet_ids[OF 3(1)] 3(2) 2(2) 1(2) by simp
  then show "handleAssignmentsGet
        (snd (handleAssignmentsPost c tc
           (snd (handleAssignmentsPost b tb
              (snd (handleAssignmentsPost a ta kv A)) B)) C))
      = Inr (listing ([assignment_record c tc C, assignment_record b tb B,
                       assignment_record a ta A] @ rev (resolved kv ''assignment:'' ids)))"
    unfolding kv3_def kv2_def kv1_def .
qed


theorem list_assignments_newest_first_witness:
  "handleAssignmentsGet
     (snd (handleAssignmentsPost ''a3'' t0
        (snd (handleAssignmentsPost ''a2'' t0
           (snd (handleAssignmentsPost ''a1'' t0 store0 fractions))
           (JObj [(''title'', JStr ''Decimals''), (''prompt'', JStr ''Order 0.5 and 0.25'')])))
        (JObj [(''title'', JStr ''Percent''), (''prompt'', JStr ''What is 10% of 50?'')])))
   = Inr (listing
       [assignment_record ''a3'' t0
          (JObj [(''title'', JStr ''Percent''), (''prompt'', JStr ''What is 10% of 50?'')]),
        assignment_record ''a2'' t0
          (JObj [(''title'', JStr ''Decimals''), (''prompt'', JStr ''Order 0.5 and 0.25'')]),
        assignment_record ''a1'' t0 fractions])"
  using list_assignments_newest_first
          [where kv = store0 and ids = "[]" and A = fractions
             and B = "JObj [(''title'', JStr ''Decimals''),
                            (''prompt'', JStr ''Order 0.5 and 0.25'')]"
             and C = "JObj [(''title'', JStr ''Percent''),
                            (''prompt'', JStr ''What is 10% of 50?'')]"
             and a = "''a1''" and b = "''a2''" and c = "''a3''"
             and ta = t0 and tb = t0 and tc = t0]
  by (simp add: fractions_def index_ids_def getIndex_store0 resolved_def
        valid_assignment_def nonblank_string_def optional_string_def trim_def is_ws_def)

lemma valid_submission_frame:
  assumes "valid_submission kv body"
    and "\<And>k. kvGet kv' (''assignment:'' @ k) = kvGet kv (''assignment:'' @ k)"
  shows "valid_submission kv' body"
  using assms(1) unfolding valid_submission_def resolves_def assms(2) .

lemma create_submission_resolved:
  assumes "valid_submission kv body" and "index_ids kv ''submissions'' ids" and "i \<notin> set ids"
  shows "index_ids (snd (handleSubmissionsPost i now kv body)) ''submissions'' (ids @ [i]) \<and>
         resolved (snd (handleSubmissionsPost i now kv body)) ''submission:'' (ids @ [i]) =
           resolved kv ''submission:'' ids @ [submission_record i now body]"
proof -
  have s: "snd (handleSubmissionsPost i now kv body) =
      kvPut (kvPut kv (''submission:'' @ i) (submission_record i now body)) (''index:'' @ ''submissions'')
        (JArr (map JStr (ids @ [i])))"
    using handleSubmissionsPost_ids[OF assms(1,2), of i now] assms(3)
    by (simp only: snd_conv if_False)
  show ?thesis
    unfolding s
    by (intro conjI index_ids_after_push resolved_after_create assms(3) truthy_submission_record)
       simp
qed

lemma create_submission_keeps_assignments:
  "kvGet (snd (handleSubmissionsPost i now kv body)) (''assignment:'' @ k) =
   kvGet kv (''assignment:'' @ k)"
proof -
  have "snd (handleSubmissionsPost i now kv body) (''assignment:'' @ k) = kv (''assignment:'' @ k)"
    by (intro post_shape_frame[OF handleSubmissionsPost_shape]) simp_all
  then show ?thesis by (simp only: kvGet_def)
qed

section \<open>List-Submissions: the assignment filter\<close>

text \<open>
  Claim C6. Given a non-empty \<^verbatim>\<open>assignmentId\<close> query value X, List-Submissions returns
  exactly the resolvable submissions whose \<^verbatim>\<open>assignmentId\<close> field is the string X (strict
  equality, no partial match); the filter is applied to the fetched records in index
  order, and the result is then reversed. In particular, after submissions S1 (for X) and
  S2 (for Y, different from X) are created, the listing for X holds S1 and not S2.
\<close>

theorem list_submissions_filtered:
  "(index_ids kv ''submissions'' ids \<and> x \<noteq> [] \<longrightarrow>
      handleSubmissionsGet kv (Some x) =
        Inr (listing (rev (filter (\<lambda>s. getProp s ''assignmentId'' = Some (JStr x))
                             (resolved kv ''submission:'' ids))))) \<and>
   (valid_submission kv S1 \<and> valid_submission kv S2 \<and>
    getProp S1 ''assignmentId'' = Some (JStr x) \<and> getProp S2 ''assignmentId'' = Some (JStr y) \<and>
    x \<noteq> y \<and> index_ids kv ''submissions'' ids \<and> i1 \<noteq> i2 \<and> i1 \<notin> set ids \<and> i2 \<notin> set ids \<longrightarrow>
      handleSubmissionsGet
        (snd (handleSubmissionsPost i2 t2 (snd (handleSubmissionsPost i1 t1 kv S1)) S2)) (Some x)
      = Inr (listing (submission_record i1 t1 S1 #
                      rev (filter (\<lambda>s. getProp s ''assignmentId'' = Some (JStr x))
                             (resolved kv ''submission:'' ids)))))"
proof (intro conjI impI)
  assume "index_ids kv ''submissions'' ids \<and> x \<noteq> []"
  then show "handleSubmissionsGet kv (Some x) =
        Inr (listing (rev (filter (\<lambda>s. getProp s ''assignmentId'' = Some (JStr x))
                             (resolved kv ''submission:'' ids))))"
    using handleSubmissionsGet_ids by blast
next
  assume h: "valid_submission kv S1 \<and> valid_submission kv S2 \<and>
    getProp S1 ''assignmentId'' = Some (JStr x) \<and> getProp S2 ''assignmentId'' = Some (JStr y) \<and>
    x \<noteq> y \<and> index_ids kv ''submissions'' ids \<and> i1 \<noteq> i2 \<and> i1 \<notin> set ids \<and> i2 \<notin> set ids"
  define kv1 where "kv1 = snd (handleSubmissionsPost i1 t1 kv S1)"
  define kv2 where "kv2 = snd (handleSubmissionsPost i2 t2 kv1 S2)"
  have x: "x \<noteq> []"
    using h unfolding valid_submission_def passes_field_checks_def by auto
  have 1: "index_ids kv1 ''submissions'' (ids @ [i1])"
    "resolved kv1 ''submission:'' (ids @ [i1]) =
       resolved kv ''submission:'' ids @ [submission_record i1 t1 S1]"
    unfolding kv1_def using create_submission_resolved[of kv S1 ids i1 t1] h by blast+
  have v2: "valid_submission kv1 S2"
    unfolding kv1_def
    by (rule valid_submission_frame[of kv]) (use h in blast, rule create_submission_keeps_assignments)
  have "i2 \<notin> set (ids @ [i1])" using h by auto
  then have 2: "index_ids kv2 ''submissions'' ((ids @ [i1]) @ [i2])"
    "resolved kv2 ''submission:'' ((ids @ [i1]) @ [i2]) =
       resolved kv1 ''submission:'' (ids @ [i1]) @ [submission_record i2 t2 S2]"
    unfolding kv2_def using create_submission_resolved[of kv1 S2 "ids @ [i1]" i2 t2] v2 1(1) by blast+
  have m1: "getProp (submission_record i1 t1 S1) ''assignmentId'' = Some (JStr x)"
    using h x by (simp add: submission_record_def)
  have m2: "getProp (submission_record i2 t2 S2) ''assignmentId'' \<noteq> Some (JStr x)"
    using h by (auto simp: submission_record_def)
  have "handleSubmissionsGet kv2 (Some x) =
      Inr (listing (submission_record i1 t1 S1 #
                      rev (filter (\<lambda>s. getProp s ''assignmentId'' = Some (JStr x))
                             (resolved kv ''submission:'' ids))))"
    unfolding handleSubmissionsGet_ids[OF 2(1) x] 2(2) 1(2) using m1 m2 by simp
  then show "handleSubmissionsGet
        (snd (handleSubmissionsPost i2 t2 (snd (handleSubmissionsPost i1 t1 kv S1)) S2)) (Some x)
      = Inr (listing (submission_record i1 t1 S1 #
                      rev (filter (\<lambda>s. getProp s ''assignmentId'' = Some (JStr x))
                             (resolved kv ''submission:'' ids))))"
    unfolding kv2_def kv1_def .
qed

text \<open>
  In the witness Y is \<^verbatim>\<open>a00\<close> and X is \<^verbatim>\<open>a0\<close>, a proper prefix of Y.
\<close>

theorem list_submissions_filtered_witness:
  "handleSubmissionsGet
     (snd (handleSubmissionsPost ''s2'' t0
        (snd (handleSubmissionsPost ''s1'' t0
           (store0(''assignment:a00'' \<mapsto> Encoded (JObj [(''id'', JStr ''a00'')])))
           (ana ''a0'')))
        (ana ''a00''))) (Some ''a0'')
   = Inr (listing [submission_record ''s1'' t0 (ana ''a0'')])"
  using list_submissions_filtered
          [where kv = "store0(''assignment:a00'' \<mapsto> Encoded (JObj [(''id'', JStr ''a00'')]))"
             and ids = "[]" and x = "''a0''" and y = "''a00''"
             and ?S1.0 = "ana ''a0''" and ?S2.0 = "ana ''a00''"
             and ?i1.0 = "''s1''" and ?i2.0 = "''s2''" and ?t1.0 = t0 and ?t2.0 = t0]
  by (simp add: index_ids_def getIndex_def kvGet_def store0_def resolved_def ana_def
        valid_submission_def passes_field_checks_def resolves_def
        nonblank_string_def optional_string_def trim_def is_ws_def)

lemma kvPut_twice: "kvPut (kvPut kv k v) k v = kvPut kv k v"
  by (simp add: kvPut_def)

lemma pushIndex_idem:
  "(case pushIndex kv n i of Inl e \<Rightarrow> Inl e | Inr kv' \<Rightarrow> pushIndex kv' n i) = pushIndex kv n i"
proof (cases "getIndex kv n")
  case (JStr s)
  have t: "truthy (JStr s)" using getIndex_truthy[of kv n] JStr by simp
  show ?thesis
  proof (cases "includes_str s i")
    case True
    have 1: "pushIndex kv n i = Inr (kvPut kv (''index:'' @ n) (JStr s))"
      using JStr True by (simp add: pushIndex_def)
    have "getIndex (kvPut kv (''index:'' @ n) (JStr s)) n = JStr s"
      by (rule getIndex_kvPut_same[OF t])
    then have "pushIndex (kvPut kv (''index:'' @ n) (JStr s)) n i =
               Inr (kvPut (kvPut kv (''index:'' @ n) (JStr s)) (''index:'' @ n) (JStr s))"
      using True by (simp add: pushIndex_def)
    then show ?thesis unfolding 1 by (simp only: sum.case kvPut_twice)
  next
    case False
    then show ?thesis using JStr by (simp add: pushIndex_def)
  qed
next
  case (JArr xs)
  define ys where "ys = (if JStr i \<in> set xs then xs else xs @ [JStr i])"
  have 1: "pushIndex kv n i = Inr (kvPut kv (''index:'' @ n) (JArr ys))"
    unfolding ys_def by (rule pushIndex_array[OF JArr])
  have "getIndex (kvPut kv (''index:'' @ n) (JArr ys)) n = JArr ys"
    by (rule getIndex_kvPut_same) simp
  from pushIndex_array[OF this, of i]
  have "pushIndex (kvPut kv (''index:'' @ n) (JArr ys)) n i =
        Inr (kvPut (kvPut kv (''index:'' @ n) (JArr ys)) (''index:'' @ n) (JArr ys))"
    by (simp add: ys_def)
  then show ?thesis unfolding 1 by (simp only: sum.case kvPut_twice)
qed (simp_all add: pushIndex_def)

lemma pushIndex_fresh:
  assumes "getIndex kv n = JArr xs" "JStr i \<notin> set xs"
  shows "\<exists>kv'. pushIndex kv n i = Inr kv' \<and> getIndex kv' n = JArr (xs @ [JStr i])"
proof -
  have "pushIndex kv n i = Inr (kvPut kv (''index:'' @ n) (JArr (xs @ [JStr i])))"
    using pushIndex_array[OF assms(1), of i] assms(2) by simp
  moreover have "getIndex (kvPut kv (''index:'' @ n) (JArr (xs @ [JStr i]))) n = JArr (xs @ [JStr i])"
    by (rule getIndex_kvPut_same) simp
  ultimately show ?thesis by blast
qed

lemma pushIndex_distinct:
  assumes "getIndex kv n = JArr xs" "distinct xs" "pushIndex kv n i = Inr kv'"
  shows "\<exists>ys. getIndex kv' n = JArr ys \<and> distinct ys"
proof -
  define ys where "ys = (if JStr i \<in> set xs then xs else xs @ [JStr i])"
  have "kv' = kvPut kv (''index:'' @ n) (JArr ys)"
    using pushIndex_array[OF assms(1), of i] assms(3) by (simp add: ys_def)
  moreover have "getIndex (kvPut kv (''index:'' @ n) (JArr ys)) n = JArr ys"
    by (rule getIndex_kvPut_same) simp
  moreover have "distinct ys" using assms(2) by (simp add: ys_def)
  ultimately show ?thesis by blast
qed

lemma index_ok_cong:
  assumes "getIndex kv' n = getIndex kv n"
    and "\<And>j. kvGet kv' (p @ j) = kvGet kv (p @ j)"
  shows "index_ok kv' n p = index_ok kv n p"
proof -
  have c: "carries_id kv' p = carries_id kv p"
    by (rule ext) (simp add: carries_id_def assms(2) split: jsval.splits)
  show ?thesis unfolding index_ok_def assms(1) c by (rule refl)
qed

lemma kvGet_cong: "kv' k = kv k \<Longrightarrow> kvGet kv' k = kvGet kv k"
  by (simp add: kvGet_def)

lemma getIndex_cong: "kv' (''index:'' @ n) = kv (''index:'' @ n) \<Longrightarrow> getIndex kv' n = getIndex kv n"
  by (simp add: getIndex_def kvGet_def)

lemma index_ok_empty: "index_ok Map.empty n p"
  by (simp add: index_ok_def getIndex_def kvGet_def)

lemma post_preserves_other:
  assumes "post_shape pre name i kv res" and "index_ok kv n' p'"
    and "''index:'' @ n' \<noteq> ''index:'' @ name" and "''index:'' @ n' \<noteq> pre @ i"
    and "\<And>j. p' @ j \<noteq> pre @ i" and "\<And>j. p' @ j \<noteq> ''index:'' @ name"
  shows "index_ok (snd res) n' p'"
proof -
  have "getIndex (snd res) n' = getIndex kv n'"
    by (rule getIndex_cong) (rule post_shape_frame[OF assms(1) assms(4) assms(3)])
  moreover have "kvGet (snd res) (p' @ j) = kvGet kv (p' @ j)" for j
    by (rule kvGet_cong) (rule post_shape_frame[OF assms(1) assms(5) assms(6)])
  ultimately have "index_ok (snd res) n' p' = index_ok kv n' p'"
    by (rule index_ok_cong)
  then show ?thesis using assms(2) by simp
qed

lemma post_preserves_own:
  assumes "post_shape pre name i kv res" and "index_ok kv name pre"
    and "\<And>j. pre @ j \<noteq> ''index:'' @ name"
  shows "index_ok (snd res) name pre"
proof -
  obtain xs where xs: "getIndex kv name = JArr xs" "distinct xs" "list_all (carries_id kv pre) xs"
    using assms(2) unfolding index_ok_def by (auto split: jsval.splits)
  define ys where "ys = (if JStr i \<in> set xs then xs else xs @ [JStr i])"
  have push: "pushIndex (kvPut kv (pre @ i) r) name i =
              Inr (kvPut (kvPut kv (pre @ i) r) (''index:'' @ name) (JArr ys))" for r
    unfolding ys_def
    by (rule pushIndex_array) (simp only: getIndex_kvPut_other[OF assms(3)] xs(1))
  from assms(1) consider (a) e where "res = (Inl e, kv)"
    | (b) m s where "res = (Inr (err m s), kv)"
    | (c) r e where "pushIndex (kvPut kv (pre @ i) r) name i = Inl e"
    | (d) r kv2 where "getProp r ''id'' = Some (JStr i)"
        "pushIndex (kvPut kv (pre @ i) r) name i = Inr kv2" "res = (Inr (created i r), kv2)"
    unfolding post_shape_def by blast
  then consider (same) "snd res = kv"
    | (put) r where "getProp r ''id'' = Some (JStr i)"
        "snd res = kvPut (kvPut kv (pre @ i) r) (''index:'' @ name) (JArr ys)"
  proof cases
    case c
    then show ?thesis by (simp only: push sum.distinct)
  next
    case d
    from d(2) have "kv2 = kvPut (kvPut kv (pre @ i) r) (''index:'' @ name) (JArr ys)"
      by (simp only: push sum.inject)
    with d(1,3) that(2) show ?thesis by simp
  qed simp_all
  then show ?thesis
  proof cases
    case same
    then show ?thesis using assms(2) by simp
  next
    case put
    define kv' where "kv' = kvPut (kvPut kv (pre @ i) r) (''index:'' @ name) (JArr ys)"
    have g: "getIndex kv' name = JArr ys"
      unfolding kv'_def by (rule getIndex_kvPut_same) simp
    have d: "distinct ys" using xs(2) by (simp add: ys_def)
    have new: "kvGet kv' (pre @ i) = r"
      unfolding kv'_def using assms(3)[of i] by (simp add: kvGet_kvPut)
    have old: "kvGet kv' (pre @ j) = kvGet kv (pre @ j)" if "j \<noteq> i" for j
      unfolding kv'_def using assms(3)[of j] that by (simp add: kvGet_kvPut)
    have c: "carries_id kv' pre x" if "x \<in> set ys" for x
    proof (cases "x = JStr i")
      case True
      then show ?thesis by (simp add: carries_id_def new put(1))
    next
      case False
      with that have "x \<in> set xs" by (auto simp: ys_def split: if_splits)
      with xs(3) have "carries_id kv pre x" by (simp add: list_all_iff)
      with False show ?thesis
        by (auto simp: carries_id_def old split: jsval.splits)
    qed
    have "index_ok kv' name pre"
      unfolding index_ok_def g using d c by (simp add: list_all_iff)
    then show ?thesis unfolding put(2) kv'_def .
  qed
qed

lemma reachable_index_ok:
  "reachable kv \<Longrightarrow>
   index_ok kv ''assignments'' ''assignment:'' \<and> index_ok kv ''submissions'' ''submission:''"
proof (induction rule: reachable.induct)
  case fresh
  show ?case by (simp add: index_ok_empty)
next
  case (assignment kv i now body)
  have "index_ok (snd (handleAssignmentsPost i now kv body)) ''assignments'' ''assignment:''"
    by (rule post_preserves_own[OF handleAssignmentsPost_shape]) (use assignment.IH in simp_all)
  moreover
  have "index_ok (snd (handleAssignmentsPost i now kv body)) ''submissions'' ''submission:''"
    by (rule post_preserves_other[OF handleAssignmentsPost_shape]) (use assignment.IH in simp_all)
  ultimately show ?case by blast
next
  case (submission kv i now body)
  have "index_ok (snd (handleSubmissionsPost i now kv body)) ''submissions'' ''submission:''"
    by (rule post_preserves_own[OF handleSubmissionsPost_shape]) (use submission.IH in simp_all)
  moreover
  have "index_ok (snd (handleSubmissionsPost i now kv body)) ''assignments'' ''assignment:''"
    by (rule post_preserves_other[OF handleSubmissionsPost_shape]) (use submission.IH in simp_all)
  ultimately show ?case by blast
qed

lemma carries_id_strings:
  "list_all (carries_id kv pre) xs \<Longrightarrow>
   \<exists>ids. xs = map JStr ids \<and>
         (\<forall>j\<in>set ids. getProp (kvGet kv (pre @ j)) ''id'' = Some (JStr j))"
proof (induction xs)
  case Nil
  then show ?case by simp
next
  case (Cons x xs)
  then obtain ids where ids: "xs = map JStr ids"
    "\<forall>j\<in>set ids. getProp (kvGet kv (pre @ j)) ''id'' = Some (JStr j)"
    by auto
  from Cons.prems obtain j where j: "x = JStr j"
    "getProp (kvGet kv (pre @ j)) ''id'' = Some (JStr j)"
    by (auto simp: carries_id_def split: jsval.splits)
  have "x # xs = map JStr (j # ids) \<and>
        (\<forall>k\<in>set (j # ids). getProp (kvGet kv (pre @ k)) ''id'' = Some (JStr k))"
    using ids j by simp
  then show ?case by (rule exI)
qed

lemma index_ok_listing:
  assumes "index_ok kv n pre"
  shows "\<exists>ids. index_ids kv n ids \<and> distinct ids \<and> distinct (resolved kv pre ids)"
proof -
  obtain xs where xs: "getIndex kv n = JArr xs" "distinct xs" "list_all (carries_id kv pre) xs"
    using assms unfolding index_ok_def by (auto split: jsval.splits)
  from carries_id_strings[OF xs(3)] obtain ids where ids: "xs = map JStr ids"
    "\<forall>j\<in>set ids. getProp (kvGet kv (pre @ j)) ''id'' = Some (JStr j)"
    by blast
  have d: "distinct ids" using xs(2) unfolding ids(1) by (simp add: distinct_map)
  have "inj_on (\<lambda>j. kvGet kv (pre @ j)) (set ids)"
  proof (rule inj_onI)
    fix a b assume "a \<in> set ids" "b \<in> set ids" "kvGet kv (pre @ a) = kvGet kv (pre @ b)"
    with ids(2) have "Some (JStr a) = Some (JStr b)" by metis
    then show "a = b" by simp
  qed
  with d have "distinct (map (\<lambda>j. kvGet kv (pre @ j)) ids)"
    by (simp add: distinct_map)
  then have "distinct (resolved kv pre ids)"
    unfolding resolved_def by (rule distinct_filter)
  moreover have "index_ids kv n ids" by (simp add: index_ids_def xs(1) ids(1))
  ultimately show ?thesis using d by blast
qed

lemma handleSubmissionsGet_distinct:
  assumes "index_ids kv ''submissions'' ids" "distinct (resolved kv ''submission:'' ids)"
  shows "\<exists>items. handleSubmissionsGet kv q = Inr (listing items) \<and> distinct items"
proof (cases "q = None \<or> q = Some []")
  case True
  have "distinct (rev (resolved kv ''submission:'' ids))"
    using assms(2) by simp
  with handleSubmissionsGet_all[OF assms(1) True] show ?thesis by blast
next
  case False
  then obtain x where x: "q = Some x" "x \<noteq> []" by auto
  have "distinct (rev (filter (\<lambda>s. getProp s ''assignmentId'' = Some (JStr x))
                         (resolved kv ''submission:'' ids)))"
    using assms(2) by simp
  with handleSubmissionsGet_ids[OF assms(1) x(2)] show ?thesis
    unfolding x(1) by blast
qed

section \<open>Index append: idempotent, at the end, without duplicates\<close>

text \<open>
  Claim C2. For every store, index and id, appending the id twice gives the same result
  as appending it once. An id that is not yet in the index is placed at the end of the
  sequence. An index without duplicates stays without duplicates under append; hence in
  every store the service can reach no id occurs twice in an index, and no record occurs
  twice in any listing, of assignments or of submissions, filtered or not.
\<close>

theorem index_append_idempotent_distinct:
  "(case pushIndex kv n i of Inl e \<Rightarrow> Inl e | Inr kv1 \<Rightarrow> pushIndex kv1 n i) = pushIndex kv n i \<and>
   (getIndex kv n = JArr xs \<and> JStr i \<notin> set xs \<longrightarrow>
      (\<exists>kv1. pushIndex kv n i = Inr kv1 \<and> getIndex kv1 n = JArr (xs @ [JStr i]))) \<and>
   (getIndex kv n = JArr xs \<and> distinct xs \<and> pushIndex kv n i = Inr kv' \<longrightarrow>
      (\<exists>ys. getIndex kv' n = JArr ys \<and> distinct ys)) \<and>
   (reachable kv \<longrightarrow>
      (\<exists>ids items. index_ids kv ''assignments'' ids \<and> distinct ids \<and>
          handleAssignmentsGet kv = Inr (listing items) \<and> distinct items) \<and>
      (\<exists>ids. index_ids kv ''submissions'' ids \<and> distinct ids \<and>
          (\<forall>q. \<exists>items. handleSubmissionsGet kv q = Inr (listing items) \<and> distinct items)))"
proof (intro conjI impI)
  show "(case pushIndex kv n i of Inl e \<Rightarrow> Inl e | Inr kv1 \<Rightarrow> pushIndex kv1 n i) = pushIndex kv n i"
    by (rule pushIndex_idem)
next
  assume "getIndex kv n = JArr xs \<and> JStr i \<notin> set xs"
  then show "\<exists>kv1. pushIndex kv n i = Inr kv1 \<and> getIndex kv1 n = JArr (xs @ [JStr i])"
    using pushIndex_fresh by blast
next
  assume "getIndex kv n = JArr xs \<and> distinct xs \<and> pushIndex kv n i = Inr kv'"
  then show "\<exists>ys. getIndex kv' n = JArr ys \<and> distinct ys"
    using pushIndex_distinct by blast
next
  assume "reachable kv"
  then have "index_ok kv ''assignments'' ''assignment:''"
    using reachable_index_ok by blast
  from index_ok_listing[OF this] obtain ids where ids: "index_ids kv ''assignments'' ids"
    "distinct ids" "distinct (resolved kv ''assignment:'' ids)" by blast
  from handleAssignmentsGet_ids[OF ids(1)] ids(3)
  have "handleAssignmentsGet kv = Inr (listing (rev (resolved kv ''assignment:'' ids))) \<and>
        distinct (rev (resolved kv ''assignment:'' ids))" by (simp only: distinct_rev simp_thms)
  with ids(1,2) show "\<exists>ids items. index_ids kv ''assignments'' ids \<and> distinct ids \<and>
          handleAssignmentsGet kv = Inr (listing items) \<and> distinct items" by blast
next
  assume "reachable kv"
  then have "index_ok kv ''submissions'' ''submission:''"
    using reachable_index_ok by blast
  from index_ok_listing[OF this] obtain ids where ids: "index_ids kv ''submissions'' ids"
    "distinct ids" "distinct (resolved kv ''submission:'' ids)" by blast
  from handleSubmissionsGet_distinct[OF ids(1,3)] ids(1,2)
  show "\<exists>ids. index_ids kv ''submissions'' ids \<and> distinct ids \<and>
          (\<forall>q. \<exists>items. handleSubmissionsGet kv q = Inr (listing items) \<and> distinct items)"
    by blast
qed


text \<open>
  The last part of the witness creates two assignments under the same id: the index and
  the listing hold it once.
\<close>

theorem index_append_idempotent_distinct_witness:
  "(case pushIndex store0 ''assignments'' ''a1'' of
      Inl e \<Rightarrow> Inl e
    | Inr kv1 \<Rightarrow> pushIndex kv1 ''assignments'' ''a1'') = pushIndex store0 ''assignments'' ''a1'' \<and>
   (\<exists>kv1. pushIndex store0 ''assignments'' ''a1'' = Inr kv1 \<and>
          getIndex kv1 ''assignments'' = JArr [JStr ''a1'']) \<and>
   (\<exists>ys. getIndex (kvPut store0 ''index:assignments'' (JArr [JStr ''a1''])) ''assignments''
            = JArr ys \<and> distinct ys) \<and>
   (\<exists>ids items.
      index_ids (snd (handleAssignmentsPost ''a1'' t0
                   (snd (handleAssignmentsPost ''a1'' t0 Map.empty fractions)) fractions))
        ''assignments'' ids \<and> distinct ids \<and>
      handleAssignmentsGet (snd (handleAssignmentsPost ''a1'' t0
                   (snd (handleAssignmentsPost ''a1'' t0 Map.empty fractions)) fractions))
        = Inr (listing items) \<and> distinct items)"
proof -
  note T = index_append_idempotent_distinct
  have p: "pushIndex store0 ''assignments'' ''a1'' =
           Inr (kvPut store0 ''index:assignments'' (JArr [JStr ''a1'']))"
    by (simp add: pushIndex_def getIndex_store0 kvPut_def)
  have 1: "(case pushIndex store0 ''assignments'' ''a1'' of
      Inl e \<Rightarrow> Inl e
    | Inr kv1 \<Rightarrow> pushIndex kv1 ''assignments'' ''a1'') = pushIndex store0 ''assignments'' ''a1''"
    using T[where kv = store0 and n = "''assignments''" and i = "''a1''"] by blast
  have 2: "\<exists>kv1. pushIndex store0 ''assignments'' ''a1'' = Inr kv1 \<and>
          getIndex kv1 ''assignments'' = JArr [JStr ''a1'']"
    using T[where kv = store0 and n = "''assignments''" and i = "''a1''" and xs = "[]"]
    by (simp add: getIndex_store0)
  have 3: "\<exists>ys. getIndex (kvPut store0 ''index:assignments'' (JArr [JStr ''a1''])) ''assignments''
            = JArr ys \<and> distinct ys"
    using T[where kv = store0 and n = "''assignments''" and i = "''a1''" and xs = "[]"
              and kv' = "kvPut store0 ''index:assignments'' (JArr [JStr ''a1''])"] p
    by (simp add: getIndex_store0)
  have r: "reachable (snd (handleAssignmentsPost ''a1'' t0
                   (snd (handleAssignmentsPost ''a1'' t0 Map.empty fractions)) fractions))"
    by (intro reachable.intros)
  have 4: "\<exists>ids items.
      index_ids (snd (handleAssignmentsPost ''a1'' t0
                   (snd (handleAssignmentsPost ''a1'' t0 Map.empty fractions)) fractions))
        ''assignments'' ids \<and> distinct ids \<and>
      handleAssignmentsGet (snd (handleAssignmentsPost ''a1'' t0
                   (snd (handleAssignmentsPost ''a1'' t0 Map.empty fractions)) fractions))
        = Inr (listing items) \<and> distinct items"
    using T[where kv = "snd (handleAssignmentsPost ''a1'' t0
                   (snd (handleAssignmentsPost ''a1'' t0 Map.empty fractions)) fractions)"] r
    by blast
  from 1 2 3 4 show ?thesis by blast
qed

end
